theory Spec2Isabelle
  imports Complex_Main
begin

section \<open>Python strings\<close>

text \<open>
  A Python \<^verbatim>\<open>str\<close> is a sequence of Unicode code points. It is modelled as a list of
  natural numbers, one per code point, so that every string the program can hold has
  a model (text outside ASCII, and the characters a JSON \<^verbatim>\<open>\uXXXX\<close> escape denotes).
  \<open>U ''abc''\<close> is the model of the literal \<^verbatim>\<open>"abc"\<close>; a character that cannot stand
  in an Isabelle string literal is written as its number (34 is the double quote,
  92 the backslash, 10 the newline, 124 the pipe).
\<close>

type_synonym pystr = "nat list"

abbreviation U :: "string \<Rightarrow> pystr" where
  "U \<equiv> map of_char"

text \<open>\<^verbatim>\<open>s.startswith(p)\<close>.\<close>

definition starts_with :: "'a list \<Rightarrow> 'a list \<Rightarrow> bool" where
  "starts_with p s = (take (length p) s = p)"

text \<open>
  \<^verbatim>\<open>str.isspace\<close> for one character: the code points Python's \<^verbatim>\<open>str.strip()\<close>
  removes (tab to carriage return, the four separators 0x1C-0x1F, space, NEL,
  no-break space and the Unicode space separators).
\<close>

definition py_isspace :: "nat \<Rightarrow> bool" where
  "py_isspace c =
     ((9 \<le> c \<and> c \<le> 13) \<or> (28 \<le> c \<and> c \<le> 32) \<or> c = 133 \<or> c = 160 \<or> c = 5760
      \<or> (8192 \<le> c \<and> c \<le> 8202) \<or> c = 8232 \<or> c = 8233 \<or> c = 8239 \<or> c = 8287
      \<or> c = 12288)"

definition py_strip :: "pystr \<Rightarrow> pystr" where
  "py_strip s = rev (dropWhile py_isspace (rev (dropWhile py_isspace s)))"

text \<open>
  \<^verbatim>\<open>s.find(p)\<close>: the index of the leftmost occurrence of \<open>p\<close> in \<open>s\<close>;
  \<^verbatim>\<open>p in s\<close> is \<open>py_find p s \<noteq> None\<close>.
\<close>

fun py_find :: "'a list \<Rightarrow> 'a list \<Rightarrow> nat option" where
  "py_find p [] = (if p = [] then Some 0 else None)"
| "py_find p (c # cs) =
     (if starts_with p (c # cs) then Some 0 else map_option Suc (py_find p cs))"

definition py_contains :: "'a list \<Rightarrow> 'a list \<Rightarrow> bool" where
  "py_contains p s = (py_find p s \<noteq> None)"

text \<open>
  \<^verbatim>\<open>s.split(sep, 1)\<close>: the text before the leftmost separator and, when there is a
  separator, the text after it (\<open>None\<close> stands for a result list of length one).
\<close>

definition py_split_once :: "'a list \<Rightarrow> 'a list \<Rightarrow> 'a list \<times> 'a list option" where
  "py_split_once sep s =
     (case py_find sep s of
        None \<Rightarrow> (s, None)
      | Some i \<Rightarrow> (take i s, Some (drop (i + length sep) s)))"

text \<open>\<^verbatim>\<open>s.split(d)\<close> for a separator \<open>d\<close> of one character.\<close>

fun py_split :: "'a \<Rightarrow> 'a list \<Rightarrow> 'a list list" where
  "py_split d [] = [[]]"
| "py_split d (c # cs) =
     (if c = d then [] # py_split d cs
      else (case py_split d cs of
              [] \<Rightarrow> [[c]]
            | f # fs \<Rightarrow> (c # f) # fs))"

text \<open>
  \<^verbatim>\<open>re.sub(pattern, repl, s)\<close>, for a pattern given by its matcher: \<open>m t\<close> is the
  length of the match of the pattern at the start of \<open>t\<close>, if there is one. The scan
  goes from left to right; at a match the replacement is emitted and the scan goes on
  behind the match, otherwise the character is copied. Every pattern of the program
  matches at least one character, so a match of length \<open>k\<close> at \<open>c # cs\<close> leaves
  \<open>drop (k - 1) cs\<close>.
\<close>

function re_sub :: "('a list \<Rightarrow> nat option) \<Rightarrow> 'a list \<Rightarrow> 'a list \<Rightarrow> 'a list" where
  "re_sub m repl [] = []"
| "re_sub m repl (c # cs) =
     (case m (c # cs) of
        Some k \<Rightarrow> repl @ re_sub m repl (drop (k - 1) cs)
      | None \<Rightarrow> c # re_sub m repl cs)"
  by pat_completeness auto
termination
  by (relation "measure (\<lambda>(m, repl, s). length s)") auto

text \<open>The matcher of a literal pattern, and \<^verbatim>\<open>s.replace(old, new)\<close> (\<open>old\<close> not empty).\<close>

definition lit_match :: "'a list \<Rightarrow> 'a list \<Rightarrow> nat option" where
  "lit_match p t = (if starts_with p t then Some (length p) else None)"

definition py_replace :: "'a list \<Rightarrow> 'a list \<Rightarrow> 'a list \<Rightarrow> 'a list" where
  "py_replace old new s = re_sub (lit_match old) new s"

text \<open>The matcher of a character class \<^verbatim>\<open>[...]\<close>.\<close>

definition class_match :: "('a \<Rightarrow> bool) \<Rightarrow> 'a list \<Rightarrow> nat option" where
  "class_match P t = (case t of [] \<Rightarrow> None | c # _ \<Rightarrow> if P c then Some 1 else None)"

section \<open>config.py\<close>

definition DAYS :: "pystr list" where
  "DAYS = [U ''Monday'', U ''Tues'', U ''Wed'', U ''Thur'', U ''Fri'', U ''Sat'', U ''Sun'']"

text \<open>\<^verbatim>\<open>DEFAULT_STUDY_TIMES\<close>, a dictionary from day names to strings.\<close>

definition DEFAULT_STUDY_TIMES :: "pystr \<rightharpoonup> pystr" where
  "DEFAULT_STUDY_TIMES =
     [U ''Monday'' \<mapsto> U ''11:00-3:00'', U ''Tues'' \<mapsto> U ''11:00-3:00'',
      U ''Wed'' \<mapsto> U ''11:00-3:00'', U ''Thur'' \<mapsto> U ''11:00-3:00'',
      U ''Fri'' \<mapsto> U ''11:00-3:00'', U ''Sat'' \<mapsto> U ''11:00-3:00'',
      U ''Sun'' \<mapsto> U ''12:00-2:00'']"

text \<open>\<^verbatim>\<open>d.get(k, default)\<close>.\<close>

definition dict_get :: "('k \<rightharpoonup> 'v) \<Rightarrow> 'k \<Rightarrow> 'v \<Rightarrow> 'v" where
  "dict_get d k dflt = (case d k of Some v \<Rightarrow> v | None \<Rightarrow> dflt)"

definition PLAN_SAVE_SEPARATOR :: pystr where
  "PLAN_SAVE_SEPARATOR = U ''||PLANS||''"

section \<open>utils.py\<close>

subsection \<open>is_valid_email\<close>

definition is_alpha :: "nat \<Rightarrow> bool" where
  "is_alpha c = ((65 \<le> c \<and> c \<le> 90) \<or> (97 \<le> c \<and> c \<le> 122))"

definition is_digit :: "nat \<Rightarrow> bool" where
  "is_digit c = (48 \<le> c \<and> c \<le> 57)"

text \<open>The classes \<^verbatim>\<open>[a-zA-Z0-9._%+-]\<close> and \<^verbatim>\<open>[a-zA-Z0-9.-]\<close>.\<close>

definition is_local_char :: "nat \<Rightarrow> bool" where
  "is_local_char c = (is_alpha c \<or> is_digit c \<or> c \<in> set (U ''._%+-''))"

definition is_domain_char :: "nat \<Rightarrow> bool" where
  "is_domain_char c = (is_alpha c \<or> is_digit c \<or> c \<in> set (U ''.-''))"

text \<open>
  \<^verbatim>\<open>[a-zA-Z]{2,}$\<close> at \<open>t\<close>: the letters are taken greedily (giving one back would
  leave a letter where \<^verbatim>\<open>$\<close> has to match), and \<^verbatim>\<open>$\<close> matches at the end of the
  string and also just before a newline that ends the string.
\<close>

definition tld_end_match :: "pystr \<Rightarrow> bool" where
  "tld_end_match t =
     (let a = takeWhile is_alpha t; e = dropWhile is_alpha t
      in 2 \<le> length a \<and> (e = [] \<or> e = [10]))"

text \<open>
  \<^verbatim>\<open>[a-zA-Z0-9.-]+\.[a-zA-Z]{2,}$\<close> at \<open>r\<close>: the class holds the dot, so the
  matcher may end the domain at any dot: some \<open>i \<ge> 1\<close> has domain characters
  before it, a dot at it and the final label behind it.
\<close>

definition domain_tld_match :: "pystr \<Rightarrow> bool" where
  "domain_tld_match r =
     list_ex (\<lambda>i. list_all is_domain_char (take i r) \<and> r ! i = 46
                  \<and> tld_end_match (drop (Suc i) r)) [1..<length r]"

text \<open>
  \<^verbatim>\<open>re.match(r'^[a-zA-Z0-9._%+-]+@[a-zA-Z0-9.-]+\.[a-zA-Z]{2,}$', email)\<close>: the local
  part is the longest run of its class (the class does not hold \<^verbatim>\<open>@\<close>), then
  \<^verbatim>\<open>@\<close> (64).
\<close>

definition email_pattern_match :: "pystr \<Rightarrow> bool" where
  "email_pattern_match s =
     (let loc = takeWhile is_local_char s; r = dropWhile is_local_char s
      in loc \<noteq> [] \<and> (case r of [] \<Rightarrow> False | c # r' \<Rightarrow> c = 64 \<and> domain_tld_match r'))"

definition is_valid_email :: "pystr \<Rightarrow> bool" where
  "is_valid_email email = (if email = [] then False else email_pattern_match email)"

subsection \<open>sanitize_input\<close>

text \<open>The class \<^verbatim>\<open>[;&<>$`\\\x00-\x1F\x7F]\<close> of the pattern.\<close>

definition sanitize_class :: "nat \<Rightarrow> bool" where
  "sanitize_class c =
     (c = 59 \<or> c = 38 \<or> c = 60 \<or> c = 62 \<or> c = 36 \<or> c = 96 \<or> c = 92 \<or> c \<le> 31 \<or> c = 127)"

definition sanitize_input :: "pystr \<Rightarrow> pystr" where
  "sanitize_input text =
     (if text = [] then []
      else if text = U ''DIEEEEE'' then text
      else re_sub (class_match sanitize_class) [] text)"

text \<open>
  The characters the specification names for removal, in its words: the set
  \<^verbatim>\<open>{; & < > $ ` \ ,}\<close> and the control characters 0x00-0x1F and 0x7F.
\<close>

definition spec_removed :: "nat set" where
  "spec_removed = set (U '';&<>$`'') \<union> {92} \<union> set (U '','') \<union> {0..31} \<union> {127}"

text \<open>The same set without the comma (44).\<close>

definition code_removed :: "nat set" where
  "code_removed = set (U '';&<>$`'') \<union> {92} \<union> {0..31} \<union> {127}"

subsection \<open>clean_text\<close>

text \<open>
  The matchers of the eight patterns of \<open>clean_text\<close>. In each of them a greedy
  repetition is followed by something no character of the repetition can start, so the
  repetition takes the longest run and giving characters back never helps; the one
  exception is \<^verbatim>\<open>.*\<close>, modelled by \<open>greedy_dot_match\<close>.
\<close>

definition is_digit_semi :: "nat \<Rightarrow> bool" where
  "is_digit_semi c = (is_digit c \<or> c = 59)"

text \<open>\<^verbatim>\<open>\x1B\[[0-9;]*[JKmsu]\<close>\<close>

definition ansi_match :: "pystr \<Rightarrow> nat option" where
  "ansi_match t =
     (case t of
        e # b # r \<Rightarrow>
          if e = 27 \<and> b = 91 then
            (case dropWhile is_digit_semi r of
               [] \<Rightarrow> None
             | f # _ \<Rightarrow>
                 if f \<in> set (U ''JKmsu'')
                 then Some (length (takeWhile is_digit_semi r) + 3) else None)
          else None
      | _ \<Rightarrow> None)"

text \<open>\<^verbatim>\<open>\[[0-9;]*m\<close>\<close>

definition bracket_match :: "pystr \<Rightarrow> nat option" where
  "bracket_match t =
     (case t of
        b # r \<Rightarrow>
          if b = 91 then
            (case dropWhile is_digit_semi r of
               [] \<Rightarrow> None
             | f # _ \<Rightarrow>
                 if f = 109 then Some (length (takeWhile is_digit_semi r) + 2) else None)
          else None
      | _ \<Rightarrow> None)"

text \<open>
  A literal \<open>pre\<close>, then \<^verbatim>\<open>[^x]*\<close> for the character \<open>stop\<close>, then a literal
  \<open>suf\<close> that starts with \<open>stop\<close>.
\<close>

definition until_match :: "pystr \<Rightarrow> nat \<Rightarrow> pystr \<Rightarrow> pystr \<Rightarrow> nat option" where
  "until_match pre stop suf t =
     (if starts_with pre t then
        (let r = drop (length pre) t
         in if starts_with suf (dropWhile (\<lambda>c. c \<noteq> stop) r)
            then Some (length pre + length (takeWhile (\<lambda>c. c \<noteq> stop) r) + length suf)
            else None)
      else None)"

text \<open>
  A literal \<open>pre\<close>, then \<^verbatim>\<open>.*\<close>, then a literal \<open>suf\<close>: the dot matches every
  character but the newline, and the repetition is greedy, so the match ends at the
  last place of the line where \<open>suf\<close> stands.
\<close>

definition greedy_dot_match :: "pystr \<Rightarrow> pystr \<Rightarrow> pystr \<Rightarrow> nat option" where
  "greedy_dot_match pre suf t =
     (if starts_with pre t then
        (let r = drop (length pre) t;
             line = takeWhile (\<lambda>c. c \<noteq> 10) r
         in (case filter (\<lambda>k. starts_with suf (drop k r)) (rev [0..<Suc (length line)]) of
               [] \<Rightarrow> None
             | k # _ \<Rightarrow> Some (length pre + k + length suf)))
      else None)"

definition clean_text :: "pystr \<Rightarrow> pystr" where
  "clean_text text =
     (if text = [] then []
      else
        (let t1 = re_sub ansi_match [] text;
             t2 = re_sub bracket_match [] t1;
             t3 = re_sub (until_match (U ''Study information for '') 58 (U '':'')) [] t2;
             t4 = re_sub (until_match (U ''Enter specific study goals for '') 40
                            (U ''(press Enter for none):'')) [] t3;
             t5 = re_sub (until_match (U ''Work information for '') 58 (U '':'')) [] t4;
             t6 = re_sub (greedy_dot_match (U ''Add another plan for '') (U '' (y/n):'')) [] t5;
             t7 = re_sub (lit_match (U ''Plan Name:'')) [] t6;
             t8 = re_sub (lit_match (U ''Plan Details (e.g., hours, location):'')) [] t7
         in py_strip t8))"

section \<open>The schedule\<close>

text \<open>
  A plan is a dictionary with the keys \<^verbatim>\<open>name\<close> and \<^verbatim>\<open>details\<close>, a day's entry one
  with the keys \<^verbatim>\<open>study_time\<close>, \<^verbatim>\<open>goals\<close> and \<^verbatim>\<open>plans\<close>, the week a dictionary
  from day names to day entries. The records fix the keys and the types of the values
  (strings, and a list of plans); the checks \<^verbatim>\<open>isinstance(p, dict)\<close> of the source
  are true of every value of these types.
\<close>

record plan =
  name :: pystr
  details :: pystr

record day_schedule =
  study_time :: pystr
  goals :: pystr
  plans :: "plan list"

type_synonym week_schedule = "pystr \<rightharpoonup> day_schedule"

text \<open>One entry of \<open>initialize_default_schedule\<close>, and the whole dictionary.\<close>

definition default_day :: "pystr \<Rightarrow> day_schedule" where
  "default_day day =
     \<lparr>study_time = dict_get DEFAULT_STUDY_TIMES day (U ''11:00-3:00''), goals = [], plans = []\<rparr>"

definition initialize_default_schedule :: week_schedule where
  "initialize_default_schedule = fold (\<lambda>day sch. sch(day \<mapsto> default_day day)) DAYS Map.empty"

section \<open>The json module\<close>

text \<open>
  \<^verbatim>\<open>json.dumps\<close> and \<^verbatim>\<open>json.loads\<close> are the interpreter's library. They are
  modelled after CPython's encoder and scanner. A number is kept as its literal (the
  interpreter turns it into an \<^verbatim>\<open>int\<close> or a \<^verbatim>\<open>float\<close>); an object is the list of
  its members in the order of the text, and a lookup takes the last member with the
  key, as the dictionary the interpreter builds does.

  The interpreter's limits are not modelled: \<^verbatim>\<open>json.loads\<close> raises \<^verbatim>\<open>RecursionError\<close>
  for arrays and objects nested deeper than the interpreter can follow, and
  \<^verbatim>\<open>ValueError\<close> for an integer of more digits than \<^verbatim>\<open>sys.get_int_max_str_digits()\<close>
  (4300 unless changed). Neither is a \<^verbatim>\<open>JSONDecodeError\<close>. In the model every
  failure of \<open>json_loads\<close> is the \<^verbatim>\<open>JSONDecodeError\<close>; it is the scanner for texts
  within those limits. The texts that \<open>save_schedule_data\<close> writes nest two levels and
  have no number outside a string.
\<close>

datatype json =
    JNull
  | JBool bool
  | JNum pystr
  | JStr pystr
  | JArr "json list"
  | JObj "(pystr \<times> json) list"

subsection \<open>json.dumps(valid_plans, ensure_ascii=False)\<close>

definition hex_digit :: "nat \<Rightarrow> nat" where
  "hex_digit d = (if d < 10 then 48 + d else 87 + d)"

text \<open>
  The replacement of one character in a string (\<^verbatim>\<open>ESCAPE_DCT\<close> of the encoder): the
  quote, the backslash and the control characters below 0x20 are escaped, every other
  character stands for itself.
\<close>

definition json_escape_char :: "nat \<Rightarrow> pystr" where
  "json_escape_char c =
     (if c = 34 then [92, 34]
      else if c = 92 then [92, 92]
      else if c = 10 then [92, 110]
      else if c = 13 then [92, 114]
      else if c = 9 then [92, 116]
      else if c = 8 then [92, 98]
      else if c = 12 then [92, 102]
      else if c < 32 then [92, 117, 48, 48, hex_digit (c div 16), hex_digit (c mod 16)]
      else [c])"

definition json_string :: "pystr \<Rightarrow> pystr" where
  "json_string s = [34] @ concat (map json_escape_char s) @ [34]"

definition json_plan :: "plan \<Rightarrow> pystr" where
  \<open>json_plan p =
     U ''{"name": '' @ json_string (name p) @ U '', "details": '' @ json_string (details p)
     @ U ''}''\<close>

text \<open>\<^verbatim>\<open>sep.join(xs)\<close>.\<close>

fun py_join :: "'a list \<Rightarrow> 'a list list \<Rightarrow> 'a list" where
  "py_join sep [] = []"
| "py_join sep [x] = x"
| "py_join sep (x # y # ys) = x @ sep @ py_join sep (y # ys)"

definition json_dumps_plans :: "plan list \<Rightarrow> pystr" where
  "json_dumps_plans ps = U ''['' @ py_join (U '', '') (map json_plan ps) @ U '']''"

subsection \<open>json.loads\<close>

definition is_json_ws :: "nat \<Rightarrow> bool" where
  "is_json_ws c = (c = 32 \<or> c = 9 \<or> c = 10 \<or> c = 13)"

definition skip_ws :: "pystr \<Rightarrow> pystr" where
  "skip_ws s = dropWhile is_json_ws s"

definition hex_val :: "nat \<Rightarrow> nat option" where
  "hex_val c =
     (if 48 \<le> c \<and> c \<le> 57 then Some (c - 48)
      else if 97 \<le> c \<and> c \<le> 102 then Some (c - 87)
      else if 65 \<le> c \<and> c \<le> 70 then Some (c - 55)
      else None)"

definition hex4 :: "pystr \<Rightarrow> nat option" where
  "hex4 r =
     (case r of
        a # b # c # d # _ \<Rightarrow>
          (case (hex_val a, hex_val b, hex_val c, hex_val d) of
             (Some w, Some x, Some y, Some z) \<Rightarrow> Some (((w * 16 + x) * 16 + y) * 16 + z)
           | _ \<Rightarrow> None)
      | _ \<Rightarrow> None)"

text \<open>
  Behind \<^verbatim>\<open>\u\<close>: four hexadecimal digits; a high surrogate that is followed by
  \<^verbatim>\<open>\u\<close> and four more digits is joined with a low surrogate, and an escape
  \<^verbatim>\<open>\u\<close> behind it whose digits are not hexadecimal is an error.
\<close>

definition uni_escape :: "pystr \<Rightarrow> (nat \<times> pystr) option" where
  "uni_escape r =
     (case hex4 r of
        None \<Rightarrow> None
      | Some c \<Rightarrow>
          (let r1 = drop 4 r
           in if 55296 \<le> c \<and> c \<le> 56319 \<and> 6 \<le> length r1 \<and> starts_with [92, 117] r1 then
                (case hex4 (drop 2 r1) of
                   None \<Rightarrow> None
                 | Some c2 \<Rightarrow>
                     if 56320 \<le> c2 \<and> c2 \<le> 57343
                     then Some (65536 + (c mod 1024) * 1024 + c2 mod 1024, drop 6 r1)
                     else Some (c, r1))
              else Some (c, r1)))"

text \<open>The escapes of one character behind a backslash (\<^verbatim>\<open>\u\<close> apart).\<close>

definition simple_escape :: "nat \<Rightarrow> nat option" where
  "simple_escape e =
     (if e = 34 \<or> e = 92 \<or> e = 47 then Some e
      else if e = 98 then Some 8
      else if e = 102 then Some 12
      else if e = 110 then Some 10
      else if e = 114 then Some 13
      else if e = 116 then Some 9
      else None)"

lemma uni_escape_shorter: "uni_escape r = Some (u, r') \<Longrightarrow> length r' \<le> length r"
  by (auto simp: uni_escape_def Let_def split: option.splits if_splits)

text \<open>
  \<open>scanstring\<close> reads a string behind its opening quote (strict mode): the text up
  to the closing quote, with the escapes replaced, and the text behind the closing
  quote. \<open>None\<close> is the \<^verbatim>\<open>JSONDecodeError\<close> (unterminated string, control
  character, invalid escape).
\<close>

function scanstring :: "pystr \<Rightarrow> (pystr \<times> pystr) option" where
  "scanstring [] = None"
| "scanstring (c # cs) =
     (if c = 34 then Some ([], cs)
      else if c = 92 then
        (case cs of
           [] \<Rightarrow> None
         | e # r \<Rightarrow>
             if e = 117 then
               (case uni_escape r of
                  None \<Rightarrow> None
                | Some (u, r') \<Rightarrow>
                    (case scanstring r' of
                       None \<Rightarrow> None
                     | Some (t, rest) \<Rightarrow> Some (u # t, rest)))
             else
               (case simple_escape e of
                  None \<Rightarrow> None
                | Some x \<Rightarrow>
                    (case scanstring r of
                       None \<Rightarrow> None
                     | Some (t, rest) \<Rightarrow> Some (x # t, rest))))
      else if c \<le> 31 then None
      else
        (case scanstring cs of
           None \<Rightarrow> None
         | Some (t, rest) \<Rightarrow> Some (c # t, rest)))"
  by pat_completeness auto
termination
  by (relation "measure length") (auto dest: uni_escape_shorter)

text \<open>
  The number at the start of the text, as the scanner of the C accelerator matches
  it: an optional minus, the integer digits, a fraction when a dot and a digit follow,
  an exponent when digits follow it. The result is the literal and the text behind it.
\<close>

definition number_exponent :: "pystr \<Rightarrow> pystr \<Rightarrow> (pystr \<times> pystr) option" where
  "number_exponent lit r =
     (case r of
        e # s # r' \<Rightarrow>
          if e = 101 \<or> e = 69 then
            (let (sg, r3) = (if (s = 45 \<or> s = 43) \<and> r' \<noteq> [] then ([s], r') else ([], s # r'));
                 ds = takeWhile is_digit r3
             in if ds \<noteq> [] then Some (lit @ e # sg @ ds, dropWhile is_digit r3)
                else Some (lit, r))
          else Some (lit, r)
      | _ \<Rightarrow> Some (lit, r))"

definition number_fraction :: "pystr \<Rightarrow> pystr \<Rightarrow> (pystr \<times> pystr) option" where
  "number_fraction lit r =
     (case r of
        dot # d # r' \<Rightarrow>
          if dot = 46 \<and> is_digit d
          then number_exponent (lit @ dot # d # takeWhile is_digit r') (dropWhile is_digit r')
          else number_exponent lit r
      | _ \<Rightarrow> number_exponent lit r)"

definition match_number :: "pystr \<Rightarrow> (pystr \<times> pystr) option" where
  "match_number s =
     (let (sg, r0) = (case s of [] \<Rightarrow> ([], s) | c # r \<Rightarrow> if c = 45 then ([45], r) else ([], s))
      in (case r0 of
            [] \<Rightarrow> None
          | d # r1 \<Rightarrow>
              if 49 \<le> d \<and> d \<le> 57
              then number_fraction (sg @ d # takeWhile is_digit r1) (dropWhile is_digit r1)
              else if d = 48 then number_fraction (sg @ [48]) r1
              else None))"

text \<open>The named constants and the numbers: every value that is no string, array or object.\<close>

definition scan_atom :: "pystr \<Rightarrow> (json \<times> pystr) option" where
  "scan_atom s =
     (if starts_with (U ''null'') s then Some (JNull, drop 4 s)
      else if starts_with (U ''true'') s then Some (JBool True, drop 4 s)
      else if starts_with (U ''false'') s then Some (JBool False, drop 5 s)
      else if starts_with (U ''NaN'') s then Some (JNum (U ''NaN''), drop 3 s)
      else if starts_with (U ''Infinity'') s then Some (JNum (U ''Infinity''), drop 8 s)
      else if starts_with (U ''-Infinity'') s then Some (JNum (U ''-Infinity''), drop 9 s)
      else (case match_number s of
              None \<Rightarrow> None
            | Some (lit, r) \<Rightarrow> Some (JNum lit, r)))"

text \<open>
  The scanner: \<open>scan_once\<close> reads one value, \<open>parse_array_items\<close> the elements of
  an array up to its closing bracket, \<open>parse_object_items\<close> the members of an object
  up to its closing brace. Each returns the text behind what it read; \<open>None\<close> is the
  \<^verbatim>\<open>JSONDecodeError\<close>. The tests \<open>length _ < length s\<close> make the recursion
  well-founded; they are always true (lemma \<open>scan_once_shorter\<close> and the lemmas
  \<open>parse_array_items_unguarded\<close>, \<open>parse_object_items_unguarded\<close>).
\<close>

function scan_once :: "pystr \<Rightarrow> (json \<times> pystr) option"
  and parse_array_items :: "pystr \<Rightarrow> (json list \<times> pystr) option"
  and parse_object_items :: "pystr \<Rightarrow> ((pystr \<times> json) list \<times> pystr) option"
where
  "scan_once [] = None"
| "scan_once (c # cs) =
     (if c = 34 then
        (case scanstring cs of None \<Rightarrow> None | Some (t, r) \<Rightarrow> Some (JStr t, r))
      else if c = 123 then
        (case skip_ws cs of
           [] \<Rightarrow> None
         | d # r \<Rightarrow>
             if d = 125 then Some (JObj [], r)
             else (case parse_object_items (d # r) of
                     None \<Rightarrow> None
                   | Some (kvs, r') \<Rightarrow> Some (JObj kvs, r')))
      else if c = 91 then
        (case skip_ws cs of
           [] \<Rightarrow> None
         | d # r \<Rightarrow>
             if d = 93 then Some (JArr [], r)
             else (case parse_array_items (d # r) of
                     None \<Rightarrow> None
                   | Some (vs, r') \<Rightarrow> Some (JArr vs, r')))
      else scan_atom (c # cs))"
| "parse_array_items s =
     (case scan_once s of
        None \<Rightarrow> None
      | Some (v, r) \<Rightarrow>
          (case skip_ws r of
             [] \<Rightarrow> None
           | d # r2 \<Rightarrow>
               if d = 93 then Some ([v], r2)
               else if d = 44 then
                 (if length (skip_ws r2) < length s then
                    (case parse_array_items (skip_ws r2) of
                       None \<Rightarrow> None
                     | Some (vs, r3) \<Rightarrow> Some (v # vs, r3))
                  else None)
               else None))"
| "parse_object_items s =
     (case s of
        [] \<Rightarrow> None
      | q # s1 \<Rightarrow>
          if q \<noteq> 34 then None
          else
            (case scanstring s1 of
               None \<Rightarrow> None
             | Some (k, r) \<Rightarrow>
                 (case skip_ws r of
                    [] \<Rightarrow> None
                  | colon # r1 \<Rightarrow>
                      if colon \<noteq> 58 then None
                      else if length (skip_ws r1) < length s then
                        (case scan_once (skip_ws r1) of
                           None \<Rightarrow> None
                         | Some (v, r2) \<Rightarrow>
                             (case skip_ws r2 of
                                [] \<Rightarrow> None
                              | d # r3 \<Rightarrow>
                                  if d = 125 then Some ([(k, v)], r3)
                                  else if d = 44 then
                                    (if length (skip_ws r3) < length s then
                                       (case parse_object_items (skip_ws r3) of
                                          None \<Rightarrow> None
                                        | Some (kvs, r4) \<Rightarrow> Some ((k, v) # kvs, r4))
                                     else None)
                                  else None))
                      else None)))"
  by pat_completeness auto
termination
proof (relation "measures [\<lambda>x. case x of Inl s \<Rightarrow> length s | Inr (Inl s) \<Rightarrow> length s | Inr (Inr s) \<Rightarrow> length s,
                           \<lambda>x. case x of Inl s \<Rightarrow> 0 | Inr _ \<Rightarrow> 1]", goal_cases)
  case 1
  show ?case by simp
next
  case (2 c cs d r)
  have "length (skip_ws cs) \<le> length cs"
    by (simp add: skip_ws_def length_dropWhile_le)
  with 2 show ?case by simp
next
  case (3 c cs d r)
  have "length (skip_ws cs) \<le> length cs"
    by (simp add: skip_ws_def length_dropWhile_le)
  with 3 show ?case by simp
qed simp_all

declare scan_once.simps(2) [simp del]
declare parse_array_items.simps [simp del]
declare parse_object_items.simps [simp del]

datatype py_exception =
    FileNotFoundError
  | PermissionError
  | UnicodeDecodeError
  | JSONDecodeError
  | OSError

text \<open>
  \<^verbatim>\<open>json.loads(s)\<close>: white space, one value, white space, and nothing behind it
  (\<^verbatim>\<open>Extra data\<close> otherwise).
\<close>

definition json_loads :: "pystr \<Rightarrow> py_exception + json" where
  "json_loads s =
     (case scan_once (skip_ws s) of
        None \<Rightarrow> Inl JSONDecodeError
      | Some (v, r) \<Rightarrow> if skip_ws r = [] then Inr v else Inl JSONDecodeError)"

section \<open>schedule_manager.py: load_schedule_data\<close>

text \<open>
  \<^verbatim>\<open>re.search(rf'schedule\[{day}\]="((?:[^"\\]|\\.)*)"', content)\<close>.
  \<open>scan_quoted\<close> is the group \<^verbatim>\<open>(?:[^"\\]|\\.)*\<close>: it takes a character that is
  neither quote (34) nor backslash (92), or a backslash and the character behind it
  when that is no newline, as long as it can, and returns what it took and the rest.
  The two alternatives start with different characters and the closing quote can
  start neither, so the matcher finds a match at a position exactly when the rest
  behind the longest run starts with the quote. \<open>re_search_day\<close> tries the positions
  from left to right and returns the group of the first match. The day's name is put
  into the pattern as it is; the names of \<open>DAYS\<close> are letters only.
\<close>

fun scan_quoted :: "pystr \<Rightarrow> pystr \<times> pystr" where
  "scan_quoted [] = ([], [])"
| "scan_quoted [c] = (if c = 34 \<or> c = 92 then ([], [c]) else ([c], []))"
| "scan_quoted (c # e # r) =
     (if c = 34 then ([], c # e # r)
      else if c = 92 then
        (if e = 10 then ([], c # e # r)
         else (case scan_quoted r of (m, t) \<Rightarrow> (c # e # m, t)))
      else (case scan_quoted (e # r) of (m, t) \<Rightarrow> (c # m, t)))"

definition day_prefix :: "pystr \<Rightarrow> pystr" where
  "day_prefix day = U ''schedule['' @ day @ U '']='' @ [34]"

definition match_day_at :: "pystr \<Rightarrow> pystr \<Rightarrow> pystr option" where
  "match_day_at day s =
     (if starts_with (day_prefix day) s then
        (case scan_quoted (drop (length (day_prefix day)) s) of
           (m, t) \<Rightarrow> if starts_with [34] t then Some m else None)
      else None)"

fun re_search_day :: "pystr \<Rightarrow> pystr \<Rightarrow> pystr option" where
  "re_search_day day [] = match_day_at day []"
| "re_search_day day (c # cs) =
     (case match_day_at day (c # cs) of
        Some m \<Rightarrow> Some m
      | None \<Rightarrow> re_search_day day cs)"

text \<open>\<^verbatim>\<open>x.replace('\\"', '"').replace('\\\\', '\\')\<close>\<close>

definition unescape_shell :: "pystr \<Rightarrow> pystr" where
  "unescape_shell x = py_replace [92, 92] [92] (py_replace [92, 34] [34] x)"

text \<open>
  \<^verbatim>\<open>str(item.get(key, ''))\<close> for a parsed object: the value of a string is the string
  itself; what \<^verbatim>\<open>str\<close> makes of a number, a truth value, \<^verbatim>\<open>None\<close>, a list or a
  dictionary is the interpreter's business (the text of a \<^verbatim>\<open>float\<close> among them) and
  is the parameter \<open>str_of\<close>.
\<close>

definition obj_get :: "(pystr \<times> json) list \<Rightarrow> pystr \<Rightarrow> json option" where
  "obj_get kvs k = map_of (rev kvs) k"

definition item_str :: "(json \<Rightarrow> pystr) \<Rightarrow> (pystr \<times> json) list \<Rightarrow> pystr \<Rightarrow> pystr" where
  "item_str str_of kvs k =
     (case obj_get kvs k of
        None \<Rightarrow> []
      | Some (JStr t) \<Rightarrow> t
      | Some v \<Rightarrow> str_of v)"

text \<open>The loop over \<^verbatim>\<open>plans_list\<close> that builds \<^verbatim>\<open>validated_plans\<close>.\<close>

fun validate_plans :: "(json \<Rightarrow> pystr) \<Rightarrow> json list \<Rightarrow> plan list" where
  "validate_plans str_of [] = []"
| "validate_plans str_of (item # items) =
     (case item of
        JObj kvs \<Rightarrow>
          (let plan_name = sanitize_input (item_str str_of kvs (U ''name''));
               plan_details = sanitize_input (item_str str_of kvs (U ''details''))
           in if plan_name \<noteq> []
              then \<lparr>name = plan_name, details = plan_details\<rparr> # validate_plans str_of items
              else validate_plans str_of items)
      | _ \<Rightarrow> validate_plans str_of items)"

text \<open>The branch \<^verbatim>\<open>if json_part:\<close>, the plans of a day from its JSON segment.\<close>

definition parse_plans :: "(json \<Rightarrow> pystr) \<Rightarrow> pystr \<Rightarrow> plan list" where
  "parse_plans str_of json_part =
     (let json_part_cleaned = py_strip (unescape_shell json_part)
      in if json_part_cleaned = [] then []
         else (case json_loads json_part_cleaned of
                 Inr (JArr plans_list) \<Rightarrow> validate_plans str_of plans_list
               | Inr _ \<Rightarrow> []
               | Inl _ \<Rightarrow> []))"

text \<open>The branch of the legacy format, for at least seven fields.\<close>

definition yes_no :: "pystr \<Rightarrow> pystr" where
  "yes_no w = (if w = U ''yes'' \<or> w = U ''no'' then w else U ''no'')"

definition legacy_plans :: "pystr list \<Rightarrow> plan list" where
  "legacy_plans legacy_data =
     (let dg_work = yes_no (legacy_data ! 1);
          dg_hours = clean_text (legacy_data ! 2);
          jj_work = yes_no (legacy_data ! 3);
          jj_hours = clean_text (legacy_data ! 4);
          day_notes = clean_text (legacy_data ! 6)
      in (if dg_work = U ''yes'' then [\<lparr>name = U ''Dollar General'', details = dg_hours\<rparr>] else [])
         @ (if jj_work = U ''yes'' then [\<lparr>name = U ''JJ Pizza'', details = jj_hours\<rparr>] else [])
         @ (if day_notes \<noteq> [] then [\<lparr>name = U ''Note'', details = day_notes\<rparr>] else []))"

text \<open>
  The body of the loop for a day whose pattern matched: \<open>data_str\<close> is the group,
  \<open>entry\<close> the entry \<^verbatim>\<open>temp_schedule[day]\<close>, which the body updates.
\<close>

definition decode_day :: "(json \<Rightarrow> pystr) \<Rightarrow> pystr \<Rightarrow> pystr \<Rightarrow> day_schedule \<Rightarrow> day_schedule" where
  "decode_day str_of day data_str entry =
     (case py_split_once PLAN_SAVE_SEPARATOR data_str of
        (legacy_part, json_part) \<Rightarrow>
          (let legacy_data = py_split 124 (unescape_shell legacy_part);
               e1 = (if 1 \<le> length legacy_data then
                       (let st = clean_text (legacy_data ! 0)
                        in entry\<lparr>study_time :=
                             (if st = [] \<or> py_contains (U ''information'') st
                              then dict_get DEFAULT_STUDY_TIMES day [] else st)\<rparr>)
                     else entry);
               e2 = (if 2 \<le> length legacy_data
                     then e1\<lparr>goals := clean_text (legacy_data ! 1)\<rparr> else e1)
           in if json_part \<noteq> None \<and> json_part \<noteq> Some [] then
                e2\<lparr>plans := parse_plans str_of (the json_part)\<rparr>
              else if 7 \<le> length legacy_data then
                e2\<lparr>goals := clean_text (legacy_data ! 5), plans := legacy_plans legacy_data\<rparr>
              else e2\<lparr>plans := []\<rparr>))"

text \<open>
  One round of the loop over \<open>DAYS\<close>; the state is \<^verbatim>\<open>temp_schedule\<close> and
  \<^verbatim>\<open>loaded_something\<close>. \<^verbatim>\<open>temp_schedule\<close> starts as the default schedule and each
  round writes its own day only, so \<^verbatim>\<open>temp_schedule[day]\<close> is the day's default
  entry when the round starts.
\<close>

definition load_day ::
  "(json \<Rightarrow> pystr) \<Rightarrow> pystr \<Rightarrow> pystr \<Rightarrow> week_schedule \<times> bool \<Rightarrow> week_schedule \<times> bool" where
  "load_day str_of content day st =
     (case st of
        (temp_schedule, loaded_something) \<Rightarrow>
          (case re_search_day day content of
             Some data_str \<Rightarrow>
               (temp_schedule(day \<mapsto>
                  decode_day str_of day data_str (dict_get temp_schedule day (default_day day))),
                True)
           | None \<Rightarrow> (temp_schedule(day \<mapsto> default_day day), loaded_something)))"

definition load_content :: "(json \<Rightarrow> pystr) \<Rightarrow> pystr \<Rightarrow> week_schedule" where
  "load_content str_of content =
     (case fold (load_day str_of content) DAYS (initialize_default_schedule, False) of
        (temp_schedule, loaded_something) \<Rightarrow>
          if loaded_something then temp_schedule else initialize_default_schedule)"

text \<open>
  The persisted file as \<open>load_schedule_data\<close> meets it: the test for it raises an
  exception (\<^verbatim>\<open>Path.exists\<close> passes on every \<^verbatim>\<open>OSError\<close> of \<^verbatim>\<open>stat\<close> that does not
  say that the file is not there, a \<^verbatim>\<open>PermissionError\<close> for a directory that may not
  be searched among them), or it does not exist, or opening and reading it raises an
  exception, or it has a text.
\<close>

datatype file_state =
    Inaccessible py_exception
  | Missing
  | Unreadable py_exception
  | Content pystr

text \<open>\<^verbatim>\<open>ANSWERS_FILE.exists()\<close>, and opening and reading the file.\<close>

definition path_exists :: "file_state \<Rightarrow> py_exception + bool" where
  "path_exists f =
     (case f of
        Inaccessible e \<Rightarrow> Inl e
      | Missing \<Rightarrow> Inr False
      | Unreadable e \<Rightarrow> Inr True
      | Content c \<Rightarrow> Inr True)"

definition read_text :: "file_state \<Rightarrow> py_exception + pystr" where
  "read_text f =
     (case f of
        Inaccessible e \<Rightarrow> Inl e
      | Missing \<Rightarrow> Inl FileNotFoundError
      | Unreadable e \<Rightarrow> Inl e
      | Content c \<Rightarrow> Inr c)"

text \<open>
  \<open>load_schedule_data\<close>: the result is \<open>Inr\<close> of the schedule the method returns (and
  stores in \<^verbatim>\<open>self.schedule\<close>), or \<open>Inl\<close> of an exception that leaves the method.
  The test \<^verbatim>\<open>if not ANSWERS_FILE.exists()\<close> stands before the \<^verbatim>\<open>try\<close>: an exception
  it raises leaves the method. The handlers \<^verbatim>\<open>except FileNotFoundError\<close> and
  \<^verbatim>\<open>except Exception\<close> both store the default schedule.
\<close>

definition load_schedule_data :: "(json \<Rightarrow> pystr) \<Rightarrow> file_state \<Rightarrow> py_exception + week_schedule" where
  "load_schedule_data str_of f =
     (case path_exists f of
        Inl e \<Rightarrow> Inl e
      | Inr False \<Rightarrow> Inr initialize_default_schedule
      | Inr True \<Rightarrow>
          (case read_text f of
             Inl e \<Rightarrow> Inr initialize_default_schedule
           | Inr content \<Rightarrow> Inr (load_content str_of content)))"

text \<open>
  What the loop stores for a day: the decoded group of the first match of the day's
  pattern, over the day's default entry, or the default entry when nothing matches.
\<close>

definition day_result :: "(json \<Rightarrow> pystr) \<Rightarrow> pystr \<Rightarrow> pystr \<Rightarrow> day_schedule" where
  "day_result str_of content day =
     (case re_search_day day content of
        Some data_str \<Rightarrow> decode_day str_of day data_str (default_day day)
      | None \<Rightarrow> default_day day)"

text \<open>
  A day's record has a corrupt JSON segment: there is a segment behind the separator,
  and \<^verbatim>\<open>json.loads\<close> fails on it or returns something that is no list.
\<close>

definition json_segment_corrupt :: "pystr \<Rightarrow> bool" where
  "json_segment_corrupt data_str =
     (case py_split_once PLAN_SAVE_SEPARATOR data_str of
        (legacy_part, None) \<Rightarrow> False
      | (legacy_part, Some json_part) \<Rightarrow>
          json_part \<noteq> []
          \<and> (case json_loads (py_strip (unescape_shell json_part)) of
                Inr (JArr plans_list) \<Rightarrow> False
              | Inr _ \<Rightarrow> True
              | Inl _ \<Rightarrow> True))"

section \<open>schedule_manager.py: save_schedule_data\<close>

text \<open>\<^verbatim>\<open>x.replace('\\', '\\\\').replace('"', '\\"')\<close>\<close>

definition escape_shell :: "pystr \<Rightarrow> pystr" where
  "escape_shell x = py_replace [34] [92, 34] (py_replace [92] [92, 92] x)"

text \<open>The loop over \<^verbatim>\<open>plans\<close> that builds \<^verbatim>\<open>valid_plans\<close>.\<close>

fun valid_plans :: "plan list \<Rightarrow> plan list" where
  "valid_plans [] = []"
| "valid_plans (p # ps) =
     (if sanitize_input (name p) \<noteq> []
      then \<lparr>name = sanitize_input (name p), details = sanitize_input (details p)\<rparr> # valid_plans ps
      else valid_plans ps)"

text \<open>\<^verbatim>\<open>combined_data\<close> for a day, and the line written for it.\<close>

definition combined_data :: "day_schedule \<Rightarrow> pystr" where
  "combined_data day_data =
     escape_shell (sanitize_input (study_time day_data)) @ [124]
     @ escape_shell (sanitize_input (goals day_data)) @ PLAN_SAVE_SEPARATOR
     @ escape_shell (json_dumps_plans (valid_plans (plans day_data)))"

definition encode_day :: "pystr \<Rightarrow> day_schedule \<Rightarrow> pystr" where
  "encode_day day day_data = day_prefix day @ combined_data day_data @ [34, 10]"

text \<open>
  Everything \<open>save_schedule_data\<close> writes: the comment with \<^verbatim>\<open>CURRENT_DATE\<close> (the
  parameter \<open>date\<close>), the list of the days, and a line for each day.
\<close>

definition file_header :: "pystr \<Rightarrow> pystr" where
  "file_header date =
     U ''# Schedule data saved on '' @ date @ [10] @ U ''days=('' @ [10]
     @ concat (map (\<lambda>day. U ''  '' @ [34] @ day @ [34, 10]) DAYS)
     @ U '')'' @ [10, 10] @ U ''declare -A schedule'' @ [10]"

definition file_text :: "pystr \<Rightarrow> week_schedule \<Rightarrow> pystr" where
  "file_text date schedule_to_save =
     file_header date
     @ concat (map (\<lambda>day. encode_day day (dict_get schedule_to_save day (default_day day))) DAYS)"

text \<open>
  \<^verbatim>\<open>isinstance(e, OSError)\<close> for the exceptions of the model: \<^verbatim>\<open>FileNotFoundError\<close>
  and \<^verbatim>\<open>PermissionError\<close> are subclasses of \<^verbatim>\<open>OSError\<close>, the two decode errors are
  subclasses of \<^verbatim>\<open>ValueError\<close>.
\<close>

fun is_OSError :: "py_exception \<Rightarrow> bool" where
  "is_OSError FileNotFoundError = True"
| "is_OSError PermissionError = True"
| "is_OSError OSError = True"
| "is_OSError UnicodeDecodeError = False"
| "is_OSError JSONDecodeError = False"

text \<open>
  What the file system does during one call of \<open>save_schedule_data\<close>: for each of its
  calls, the exception it raises, if any. \<open>write_raises\<close> stands for the \<^verbatim>\<open>with\<close> block
  behind the \<^verbatim>\<open>open\<close> (the writes and the closing of the file) and says how many
  characters have reached the file when the exception is raised.
\<close>

record save_env =
  mkdir_raises :: "py_exception option"
  exists_raises :: "py_exception option"
  copy2_raises :: "py_exception option"
  open_raises :: "py_exception option"
  write_raises :: "(nat \<times> py_exception) option"
  chmod_raises :: "py_exception option"

text \<open>
  The manager and its files: \<^verbatim>\<open>self.schedule\<close>, the file \<^verbatim>\<open>ANSWERS_FILE\<close>, and the
  backups made of it so far.
\<close>

record manager =
  schedule :: week_schedule
  answers_file :: file_state
  backups :: "file_state list"

text \<open>
  \<open>save_schedule_data\<close>: \<open>arg\<close> is the argument \<^verbatim>\<open>schedule_to_save\<close> (\<open>None\<close> for the
  default \<^verbatim>\<open>None\<close>), the result is the value returned and the manager afterwards.
  The inner \<^verbatim>\<open>try\<close> around \<^verbatim>\<open>shutil.copy2\<close> catches every \<^verbatim>\<open>Exception\<close>, the one
  around \<^verbatim>\<open>os.chmod\<close> catches \<^verbatim>\<open>OSError\<close>; the outer handler catches every
  \<^verbatim>\<open>Exception\<close> and returns \<^verbatim>\<open>False\<close>. Opening the file for writing truncates it.
\<close>

definition save_schedule_data ::
  "pystr \<Rightarrow> save_env \<Rightarrow> week_schedule option \<Rightarrow> manager \<Rightarrow> bool \<times> manager" where
  "save_schedule_data date env arg m =
     (let schedule_to_save = (case arg of None \<Rightarrow> schedule m | Some w \<Rightarrow> w) in
      if mkdir_raises env \<noteq> None then (False, m)
      else if exists_raises env \<noteq> None then (False, m)
      else
        (let m1 = (if answers_file m \<noteq> Missing \<and> copy2_raises env = None
                   then m\<lparr>backups := answers_file m # backups m\<rparr> else m) in
         if open_raises env \<noteq> None then (False, m1)
         else
           (case write_raises env of
              Some (n, e) \<Rightarrow>
                (False, m1\<lparr>answers_file := Content (take n (file_text date schedule_to_save))\<rparr>)
            | None \<Rightarrow>
                (let m2 = m1\<lparr>answers_file := Content (file_text date schedule_to_save)\<rparr> in
                 case chmod_raises env of
                   None \<Rightarrow> (True, m2\<lparr>schedule := schedule_to_save\<rparr>)
                 | Some e \<Rightarrow>
                     if is_OSError e then (True, m2\<lparr>schedule := schedule_to_save\<rparr>)
                     else (False, m2)))))"

section \<open>schedule_manager.py: generate_html_email\<close>




























section \<open>Example files\<close>

text \<open>
  Two persisted files for the claim about a corrupt JSON segment. In \<open>leaking_file\<close>
  the segment of \<^verbatim>\<open>Wed\<close> is no JSON and ends in the text \<^verbatim>\<open>schedule[Thur]=\<close>;
  \<open>repaired_file\<close> is the same file with the segment replaced by \<^verbatim>\<open>[]\<close>.
\<close>

definition leaking_file :: pystr where
  "leaking_file =
     U ''schedule[Wed]='' @ [34] @ U ''a|b||PLANS||[schedule[Thur]='' @ [34, 10]
     @ U ''schedule[Thur]='' @ [34] @ U ''x|y||PLANS||[]'' @ [34, 10]"

definition repaired_file :: pystr where
  "repaired_file =
     U ''schedule[Wed]='' @ [34] @ U ''a|b||PLANS||[]'' @ [34, 10]
     @ U ''schedule[Thur]='' @ [34] @ U ''x|y||PLANS||[]'' @ [34, 10]"

definition week_ok :: week_schedule where
  "week_ok = initialize_default_schedule(U ''Wed'' \<mapsto>
     \<lparr>study_time = U ''9:00-10:30'', goals = U ''read '' @ [34] @ U ''x'' @ [34],
      plans = [\<lparr>name = U ''Work'', details = U ''9-5''\<rparr>]\<rparr>)"

definition week_no_study :: week_schedule where
  "week_no_study = initialize_default_schedule(U ''Monday'' \<mapsto>
     \<lparr>study_time = [], goals = [], plans = []\<rparr>)"

definition week_mixed :: week_schedule where
  "week_mixed = initialize_default_schedule(U ''Wed'' \<mapsto>
     \<lparr>study_time = U ''9:00-10:30'', goals = [],
      plans = [\<lparr>name = U '';'', details = U ''z''\<rparr>, \<lparr>name = U ''Work'', details = U ''9-5''\<rparr>]\<rparr>)"


text \<open>A file system on which nothing fails.\<close>

definition env_ok :: save_env where
  "env_ok = \<lparr>mkdir_raises = None, exists_raises = None, copy2_raises = None,
             open_raises = None, write_raises = None, chmod_raises = None\<rparr>"



section \<open>Notions used in the proofs\<close>

definition esc_char :: "nat \<Rightarrow> pystr" where
  "esc_char c = (if c = 92 then [92, 92] else if c = 34 then [92, 34] else [c])"

definition plan_json :: "plan \<Rightarrow> json" where
  "plan_json p = JObj [(U ''name'', JStr (name p)), (U ''details'', JStr (details p))]"

fun eqq_free :: "pystr \<Rightarrow> bool" where
  "eqq_free [] = True"
| "eqq_free [c] = True"
| "eqq_free (c # e # r) = (\<not> (c = 61 \<and> e = 34) \<and> eqq_free (e # r))"

definition day_key :: "pystr \<Rightarrow> pystr" where
  "day_key day = U ''schedule['' @ day @ U '']''"

definition key_line :: "(pystr \<Rightarrow> pystr) \<Rightarrow> pystr \<Rightarrow> pystr" where
  "key_line tl_of d = day_key d @ 61 # 34 # tl_of d"

definition line_tail :: "week_schedule \<Rightarrow> pystr \<Rightarrow> pystr" where
  "line_tail W day = combined_data (dict_get W day (default_day day)) @ [34, 10]"

definition day_sanitized :: "day_schedule \<Rightarrow> bool" where
  "day_sanitized dd =
     (sanitize_input (study_time dd) = study_time dd
      \<and> sanitize_input (goals dd) = goals dd
      \<and> (\<forall>p\<in>set (plans dd). sanitize_input (name p) = name p
             \<and> sanitize_input (details p) = details p \<and> name p \<noteq> []))"

definition day_survives :: "day_schedule \<Rightarrow> bool" where
  "day_survives dd =
     (study_time dd \<noteq> []
      \<and> \<not> py_contains (U ''information'') (study_time dd)
      \<and> clean_text (study_time dd) = study_time dd
      \<and> clean_text (goals dd) = goals dd
      \<and> 124 \<notin> set (study_time dd)
      \<and> 124 \<notin> set (goals dd))"





section \<open>The scanner reads on\<close>

text \<open>
  Every value, element and member that the scanner reads takes at least one character,
  so the tests \<open>length _ < length s\<close> in \<open>parse_array_items\<close> and
  \<open>parse_object_items\<close> never fail: the two functions satisfy their equations without
  the tests.
\<close>

lemma scanstring_shorter: "scanstring s = Some (t, r) \<Longrightarrow> length r < length s"
proof (induction s arbitrary: t r rule: scanstring.induct)
  case 1
  then show ?case by simp
next
  case (2 c cs)
  then show ?case
    by (auto split: if_splits list.splits option.splits dest!: uni_escape_shorter)
      (fastforce+)?
qed

lemma skip_ws_le: "length (skip_ws s) \<le> length s"
  by (simp add: skip_ws_def length_dropWhile_le)

lemma number_exponent_le: "number_exponent lit r = Some (l, r') \<Longrightarrow> length r' \<le> length r"
  by (auto simp: number_exponent_def Let_def split: list.splits if_splits prod.splits
      intro: le_trans [OF length_dropWhile_le] le_SucI)

lemma number_fraction_le: "number_fraction lit r = Some (l, r') \<Longrightarrow> length r' \<le> length r"
  by (auto simp: number_fraction_def split: list.splits if_splits
      dest!: number_exponent_le intro: le_trans [OF _ length_dropWhile_le] le_SucI)

lemma match_number_shorter:
  fixes s :: pystr
  assumes a: "match_number s = Some (l, r)"
  shows "length r < length s"
proof -
  define p :: "pystr \<times> pystr" where "p = (case s of [] \<Rightarrow> ([], s) | c # r \<Rightarrow> if c = 45 then ([45], r) else ([], s))"
  obtain sg r0 where sg: "p = (sg, r0)" by (cases p)
  have le: "length r0 \<le> length s"
    using sg unfolding p_def by (auto split: list.splits if_splits)
  from a sg obtain d r1 where r0: "r0 = d # r1"
    and n: "(49 \<le> d \<and> d \<le> 57 \<and> number_fraction (sg @ d # takeWhile is_digit r1) (dropWhile is_digit r1) = Some (l, r))
         \<or> (d = 48 \<and> number_fraction (sg @ [48]) r1 = Some (l, r))"
    unfolding match_number_def p_def [symmetric]
    by (auto split: list.splits if_splits)
  from n have "length r \<le> length r1"
  proof
    assume "49 \<le> d \<and> d \<le> 57 \<and> number_fraction (sg @ d # takeWhile is_digit r1) (dropWhile is_digit r1) = Some (l, r)"
    then have "length r \<le> length (dropWhile is_digit r1)"
      by (auto dest: number_fraction_le)
    also have "\<dots> \<le> length r1" by (rule length_dropWhile_le)
    finally show ?thesis .
  next
    assume "d = 48 \<and> number_fraction (sg @ [48]) r1 = Some (l, r)"
    then show ?thesis by (auto dest: number_fraction_le)
  qed
  with r0 le show ?thesis by simp
qed

lemma starts_with_drop: "starts_with p s \<Longrightarrow> p \<noteq> [] \<Longrightarrow> length (drop (length p) s) < length s"
proof -
  assume a: "starts_with p s" and ne: "p \<noteq> []"
  then have "length p \<le> length s"
    by (metis starts_with_def length_take min.cobounded1)
  with ne show ?thesis by (cases p) auto
qed

lemma scan_atom_shorter:
  assumes "scan_atom s = Some (v, r)"
  shows "length r < length s"
proof -
  note d = starts_with_drop [of "U ''null'' " s, simplified]
    starts_with_drop [of "U ''true''" s, simplified]
    starts_with_drop [of "U ''false''" s, simplified]
    starts_with_drop [of "U ''NaN''" s, simplified]
    starts_with_drop [of "U ''Infinity''" s, simplified]
    starts_with_drop [of "U ''-Infinity''" s, simplified]
  from assms show ?thesis
    unfolding scan_atom_def
    using d by (auto split: if_splits option.splits dest!: match_number_shorter)
qed

lemma scanner_shorter:
  "\<forall>v r. scan_once s = Some (v, r) \<longrightarrow> length r < length s"
  "\<forall>vs r. parse_array_items s1 = Some (vs, r) \<longrightarrow> length r < length s1"
  "\<forall>kvs r. parse_object_items s2 = Some (kvs, r) \<longrightarrow> length r < length s2"
proof (induction s and s1 and s2 rule: scan_once_parse_array_items_parse_object_items.induct)
  case 1
  then show ?case by simp
next
  case (2 c cs)
  show ?case
  proof (intro allI impI)
    fix v r assume a: "scan_once (c # cs) = Some (v, r)"
    have ws: "length (skip_ws cs) \<le> length cs" by (rule skip_ws_le)
    from a 2 ws show "length r < length (c # cs)"
      by (auto simp: scan_once.simps split: if_splits option.splits list.splits
          dest!: scanstring_shorter scan_atom_shorter)
  qed
next
  case (3 s)
  show ?case
  proof (intro allI impI)
    fix vs r assume a: "parse_array_items s = Some (vs, r)"
    from a obtain v r1 where so: "scan_once s = Some (v, r1)"
      by (subst (asm) parse_array_items.simps) (auto split: option.splits)
    with 3(1) have l1: "length r1 < length s" by blast
    have w1: "length (skip_ws r1) \<le> length r1" by (rule skip_ws_le)
    from a so obtain d r2 where sk: "skip_ws r1 = d # r2"
      by (subst (asm) parse_array_items.simps) (auto split: list.splits)
    show "length r < length s"
    proof (cases "d = 93")
      case True
      with a so sk have "r = r2"
        by (subst (asm) parse_array_items.simps) simp
      with sk w1 l1 show ?thesis by simp
    next
      case False
      with a so sk have d: "d = 44" and g: "length (skip_ws r2) < length s"
        and rec: "\<exists>vs'. parse_array_items (skip_ws r2) = Some (vs', r)"
        by (subst (asm) parse_array_items.simps, auto split: if_splits option.splits)+
      from rec 3(2) [OF so refl sk False d g] have "length r < length (skip_ws r2)"
        by blast
      with g show ?thesis by simp
    qed
  qed
next
  case (4 s)
  show ?case
  proof (intro allI impI)
    fix kvs r assume a: "parse_object_items s = Some (kvs, r)"
    from a obtain s1 where s: "s = 34 # s1"
      by (subst (asm) parse_object_items.simps) (auto split: list.splits if_splits)
    from a s obtain k r0 where ss: "scanstring s1 = Some (k, r0)"
      by (subst (asm) parse_object_items.simps) (auto split: option.splits)
    from a s ss obtain r1 where sk: "skip_ws r0 = 58 # r1"
      by (subst (asm) parse_object_items.simps) (auto split: list.splits if_splits)
    from a s ss sk have g: "length (skip_ws r1) < length s"
      by (subst (asm) parse_object_items.simps) (auto split: if_splits)
    from a s ss sk g obtain v r2 where so: "scan_once (skip_ws r1) = Some (v, r2)"
      by (subst (asm) parse_object_items.simps) (auto split: option.splits)
    from a s ss sk g so obtain d r3 where sk2: "skip_ws r2 = d # r3"
      by (subst (asm) parse_object_items.simps) (auto split: list.splits)
    have "\<forall>v r. scan_once (skip_ws r1) = Some (v, r) \<longrightarrow> length r < length (skip_ws r1)"
      by (rule 4(1) [OF s _ ss refl sk _ g]) simp_all
    with so have "length r2 < length (skip_ws r1)" by blast
    with g have l2: "length r2 < length s" by simp
    have w2: "length (skip_ws r2) \<le> length r2" by (rule skip_ws_le)
    show "length r < length s"
    proof (cases "d = 125")
      case True
      with a s ss sk g so sk2 have "r = r3"
        by (subst (asm) parse_object_items.simps) simp
      with sk2 w2 l2 show ?thesis by simp
    next
      case False
      with a s ss sk g so sk2 have d: "d = 44" and g2: "length (skip_ws r3) < length s"
        and rec: "\<exists>kvs'. parse_object_items (skip_ws r3) = Some (kvs', r)"
        by (subst (asm) parse_object_items.simps, auto split: if_splits option.splits)+
      have "\<forall>kvs r. parse_object_items (skip_ws r3) = Some (kvs, r)
          \<longrightarrow> length r < length (skip_ws r3)"
        by (rule 4(2) [OF s _ ss refl sk _ g so refl sk2 False d g2]) simp_all
      with rec have "length r < length (skip_ws r3)" by blast
      with g2 show ?thesis by simp
    qed
  qed
qed


lemma scan_once_shorter: "scan_once s = Some (v, r) \<Longrightarrow> length r < length s"
  using scanner_shorter(1) by blast

lemma parse_array_items_unguarded:
  "parse_array_items s =
     (case scan_once s of
        None \<Rightarrow> None
      | Some (v, r) \<Rightarrow>
          (case skip_ws r of
             [] \<Rightarrow> None
           | d # r2 \<Rightarrow>
               if d = 93 then Some ([v], r2)
               else if d = 44 then
                 (case parse_array_items (skip_ws r2) of
                    None \<Rightarrow> None
                  | Some (vs, r3) \<Rightarrow> Some (v # vs, r3))
               else None))"
proof (cases "scan_once s")
  case None
  then show ?thesis by (subst parse_array_items.simps) simp
next
  case (Some q)
  obtain v r where q: "q = (v, r)" by (cases q)
  have l: "length r < length s"
    using Some q by (auto dest: scan_once_shorter)
  show ?thesis
  proof (cases "skip_ws r")
    case Nil
    then show ?thesis by (subst parse_array_items.simps) (simp add: Some q)
  next
    case (Cons d r2)
    have "length (skip_ws r2) \<le> length r2" by (rule skip_ws_le)
    moreover have "length (d # r2) \<le> length r"
      using skip_ws_le [of r] by (simp add: Cons)
    ultimately have "length (skip_ws r2) < length s" using l by simp
    then show ?thesis by (subst parse_array_items.simps) (simp add: Some q Cons)
  qed
qed

lemma parse_object_items_unguarded:
  "parse_object_items s =
     (case s of
        [] \<Rightarrow> None
      | q # s1 \<Rightarrow>
          if q \<noteq> 34 then None
          else
            (case scanstring s1 of
               None \<Rightarrow> None
             | Some (k, r) \<Rightarrow>
                 (case skip_ws r of
                    [] \<Rightarrow> None
                  | colon # r1 \<Rightarrow>
                      if colon \<noteq> 58 then None
                      else
                        (case scan_once (skip_ws r1) of
                           None \<Rightarrow> None
                         | Some (v, r2) \<Rightarrow>
                             (case skip_ws r2 of
                                [] \<Rightarrow> None
                              | d # r3 \<Rightarrow>
                                  if d = 125 then Some ([(k, v)], r3)
                                  else if d = 44 then
                                    (case parse_object_items (skip_ws r3) of
                                       None \<Rightarrow> None
                                     | Some (kvs, r4) \<Rightarrow> Some ((k, v) # kvs, r4))
                                  else None)))))"
proof (cases s)
  case Nil
  then show ?thesis by (subst parse_object_items.simps) simp
next
  case (Cons q s1)
  show ?thesis
  proof (cases "scanstring s1")
    case None
    then show ?thesis by (subst parse_object_items.simps) (simp add: Cons)
  next
    case (Some kr)
    obtain k r where kr: "kr = (k, r)" by (cases kr)
    have l0: "length r < length s1"
      using Some kr by (auto dest: scanstring_shorter)
    show ?thesis
    proof (cases "skip_ws r")
      case Nil
      then show ?thesis by (subst parse_object_items.simps) (simp add: Cons Some kr)
    next
      case c1: (Cons colon r1)
      have "length (colon # r1) \<le> length r"
        using skip_ws_le [of r] by (simp add: c1)
      with l0 have l1: "length (skip_ws r1) < length s"
        using skip_ws_le [of r1] by (simp add: Cons)
      show ?thesis
      proof (cases "scan_once (skip_ws r1)")
        case None
        then show ?thesis
          using l1 unfolding Cons
          by (subst parse_object_items.simps) (simp add: Some kr c1)
      next
        case s2: (Some vr)
        obtain v r2 where vr: "vr = (v, r2)" by (cases vr)
        have l2: "length r2 < length (skip_ws r1)"
          using s2 vr by (auto dest: scan_once_shorter)
        show ?thesis
        proof (cases "skip_ws r2")
          case Nil
          then show ?thesis
            using l1 s2 unfolding Cons
            by (subst parse_object_items.simps) (simp add: Some kr c1 vr)
        next
          case c2: (Cons d r3)
          have "length (d # r3) \<le> length r2"
            using skip_ws_le [of r2] by (simp add: c2)
          with l1 l2 have l3: "length (skip_ws r3) < length s"
            using skip_ws_le [of r3] by simp
          show ?thesis
            using l1 l3 s2 unfolding Cons
            by (subst parse_object_items.simps) (simp add: Some kr c1 vr c2)
        qed
      qed
    qed
  qed
qed


section \<open>Sanitizer and validator: the claims\<close>

lemma re_sub_class_filter:
  "re_sub (class_match P) [] s = filter (\<lambda>c. \<not> P c) s"
  by (induction s) (simp_all add: class_match_def)

lemma sanitize_class_code_removed: "sanitize_class c \<longleftrightarrow> c \<in> code_removed"
  by (auto simp: sanitize_class_def code_removed_def)

text \<open>
  C3, as stated, fails: the comma is in the set the claim names, and \<open>sanitize_input\<close>
  keeps it.
\<close>

theorem sanitize_keeps_comma:
  "sanitize_input (U ''a,b'') = U ''a,b''
   \<and> sanitize_input (U ''a,b'') \<noteq> filter (\<lambda>c. c \<notin> spec_removed) (U ''a,b'')"
  by (simp add: sanitize_input_def class_match_def sanitize_class_def spec_removed_def)

text \<open>
  C3, amended: for every input string, \<open>sanitize_input\<close> returns the string with
  every occurrence of the characters \<^verbatim>\<open>; & < > $ ` \\<close> and of the control characters
  0x00-0x1F and 0x7F removed, and no other character removed or altered (the comma
  stays); the 7-character input \<^verbatim>\<open>DIEEEEE\<close> is returned as it is.
\<close>

theorem sanitize_input_removes:
  "sanitize_input s =
     (if s = U ''DIEEEEE'' then s else filter (\<lambda>c. c \<notin> code_removed) s)"
  by (simp add: sanitize_input_def re_sub_class_filter sanitize_class_code_removed)

theorem sanitize_input_removes_witness:
  "sanitize_input (U ''a;b,c<d'' @ [92, 7]) = U ''ab,cd''
   \<and> sanitize_input (U ''DIEEEEE'') = U ''DIEEEEE''"
  using sanitize_input_removes [of "U ''a;b,c<d'' @ [92, 7]"]
    sanitize_input_removes [of "U ''DIEEEEE''"]
  by (simp add: code_removed_def)

text \<open>
  C8: \<open>is_valid_email\<close> accepts a string that ends in a newline behind the final
  label, which is not of the form the claim gives: \<^verbatim>\<open>$\<close> in the pattern also matches
  before a trailing newline.
\<close>

theorem is_valid_email_trailing_newline:
  "is_valid_email (U ''a@b.co'' @ [10])"
  by (simp add: is_valid_email_def email_pattern_match_def domain_tld_match_def
      tld_end_match_def is_local_char_def is_domain_char_def is_alpha_def is_digit_def
      upt_rec)

section \<open>Loading: the claims\<close>

lemma fold_load_day:
  "distinct ds \<Longrightarrow> (\<forall>d\<in>set ds. temp d = Some (default_day d)) \<Longrightarrow>
   fold (load_day str_of c) ds (temp, b) =
     ((\<lambda>d. if d \<in> set ds then Some (day_result str_of c d) else temp d),
      b \<or> (\<exists>d\<in>set ds. re_search_day d c \<noteq> None))"
proof (induction ds arbitrary: temp b)
  case Nil
  then show ?case by simp
next
  case (Cons a ds)
  obtain temp' b' where step: "load_day str_of c a (temp, b) = (temp', b')"
    by (cases "load_day str_of c a (temp, b)")
  from Cons.prems have ta: "temp a = Some (default_day a)" and nin: "a \<notin> set ds"
    and dist: "distinct ds" by auto
  have temp': "temp' = temp(a \<mapsto> day_result str_of c a)"
    and b': "b' = (b \<or> re_search_day a c \<noteq> None)"
    using step ta
    by (auto simp: load_day_def day_result_def dict_get_def split: option.splits)
  have pre: "\<forall>d\<in>set ds. temp' d = Some (default_day d)"
    using Cons.prems nin by (auto simp: temp')
  have "fold (load_day str_of c) (a # ds) (temp, b) = fold (load_day str_of c) ds (temp', b')"
    by (simp add: step)
  also have "\<dots> = ((\<lambda>d. if d \<in> set ds then Some (day_result str_of c d) else temp' d),
      b' \<or> (\<exists>d\<in>set ds. re_search_day d c \<noteq> None))"
    by (rule Cons.IH [OF dist pre])
  finally show ?case
    by (auto simp: temp' b' fun_eq_iff)
qed

lemma distinct_DAYS: "distinct DAYS"
  by (simp add: DAYS_def)

lemma initialize_default_schedule_apply:
  "initialize_default_schedule d = (if d \<in> set DAYS then Some (default_day d) else None)"
  by (simp add: initialize_default_schedule_def DAYS_def)

lemma load_content_apply:
  "load_content str_of c d = (if d \<in> set DAYS then Some (day_result str_of c d) else None)"
proof -
  have pre: "\<forall>d\<in>set DAYS. initialize_default_schedule d = Some (default_day d)"
    by (simp add: initialize_default_schedule_apply)
  have none: "\<not> (\<exists>d\<in>set DAYS. re_search_day d c \<noteq> None) \<Longrightarrow> d \<in> set DAYS \<Longrightarrow>
      day_result str_of c d = default_day d"
    by (auto simp: day_result_def)
  show ?thesis
    unfolding load_content_def fold_load_day [OF distinct_DAYS pre]
    using none by (auto simp: initialize_default_schedule_apply)
qed

lemma load_schedule_data_Content:
  "load_schedule_data str_of (Content c) = Inr (load_content str_of c)"
  by (simp add: load_schedule_data_def path_exists_def read_text_def)

text \<open>
  What \<open>load_schedule_data\<close> returns when the test for the file raises nothing: a
  schedule, the default one when the file is absent or cannot be read.
\<close>

lemma load_schedule_data_returns:
  "load_schedule_data str_of Missing = Inr initialize_default_schedule"
  "load_schedule_data str_of (Unreadable e) = Inr initialize_default_schedule"
  by (simp_all add: load_schedule_data_def path_exists_def read_text_def)

lemma initialize_default_schedule_days:
  "dom initialize_default_schedule = set DAYS"
  "day \<in> set DAYS \<Longrightarrow> \<exists>t. DEFAULT_STUDY_TIMES day = Some t
     \<and> initialize_default_schedule day = Some \<lparr>study_time = t, goals = [], plans = []\<rparr>"
  by (auto simp: initialize_default_schedule_apply dom_def DAYS_def default_day_def dict_get_def
      DEFAULT_STUDY_TIMES_def)

text \<open>
  Claim C2 (\<open>load_schedule_data\<close> never passes an exception to its caller) does not
  hold of the code. The handlers of the method catch every exception of reading and
  decoding, but the test \<^verbatim>\<open>ANSWERS_FILE.exists()\<close> is made before the \<^verbatim>\<open>try\<close>: when
  it raises \<^verbatim>\<open>PermissionError\<close>, the exception leaves the method and no schedule is
  returned.
\<close>

theorem load_schedule_data_exists_raises:
  "load_schedule_data str_of (Inaccessible PermissionError) = Inl PermissionError"
  by (simp add: load_schedule_data_def path_exists_def)

lemma py_split_once_None:
  "py_find sep s = None \<Longrightarrow> py_split_once sep s = (s, None)"
  by (simp add: py_split_once_def)

text \<open>
  C5, amended: for a day's record that has no separator and whose unescaped text
  splits at the pipes into at least seven fields, with \<^verbatim>\<open>yes\<close> in the fields 1 and 3,
  the decoded plans are \<^verbatim>\<open>Dollar General\<close> with the cleaned field 2 as details,
  \<^verbatim>\<open>JJ Pizza\<close> with the cleaned field 4 as details, and \<^verbatim>\<open>Note\<close> with the cleaned
  field 6 as details exactly when the cleaned field 6 is not empty; the cleaned field 5
  is the day's goals. Cleaned means passed through \<open>clean_text\<close>.
\<close>

theorem decode_day_legacy:
  assumes nosep: "py_find PLAN_SAVE_SEPARATOR data_str = None"
    and ld: "legacy_data = py_split 124 (unescape_shell data_str)"
    and len: "7 \<le> length legacy_data"
    and dg: "legacy_data ! 1 = U ''yes''"
    and jj: "legacy_data ! 3 = U ''yes''"
  shows "plans (decode_day str_of day data_str entry) =
           [\<lparr>name = U ''Dollar General'', details = clean_text (legacy_data ! 2)\<rparr>,
            \<lparr>name = U ''JJ Pizza'', details = clean_text (legacy_data ! 4)\<rparr>]
           @ (if clean_text (legacy_data ! 6) \<noteq> []
              then [\<lparr>name = U ''Note'', details = clean_text (legacy_data ! 6)\<rparr>] else [])
         \<and> goals (decode_day str_of day data_str entry) = clean_text (legacy_data ! 5)"
proof -
  have yn1: "yes_no (legacy_data ! 1) = U ''yes''" and yn3: "yes_no (legacy_data ! 3) = U ''yes''"
    using dg jj by (simp_all add: yes_no_def)
  have lp: "legacy_plans legacy_data =
           [\<lparr>name = U ''Dollar General'', details = clean_text (legacy_data ! 2)\<rparr>,
            \<lparr>name = U ''JJ Pizza'', details = clean_text (legacy_data ! 4)\<rparr>]
           @ (if clean_text (legacy_data ! 6) \<noteq> []
              then [\<lparr>name = U ''Note'', details = clean_text (legacy_data ! 6)\<rparr>] else [])"
    unfolding legacy_plans_def Let_def yn1 yn3 by simp
  have sp: "py_split 124 (unescape_shell data_str) = legacy_data"
    by (simp add: ld)
  have l1: "1 \<le> length legacy_data" and l2: "2 \<le> length legacy_data"
    using len by simp_all
  have dd: "decode_day str_of day data_str entry =
      entry\<lparr>study_time :=
               (if clean_text (legacy_data ! 0) = []
                   \<or> py_contains (U ''information'') (clean_text (legacy_data ! 0))
                then dict_get DEFAULT_STUDY_TIMES day [] else clean_text (legacy_data ! 0)),
            goals := clean_text (legacy_data ! 5), plans := legacy_plans legacy_data\<rparr>"
    unfolding decode_day_def py_split_once_None [OF nosep] prod.case sp Let_def
    using l1 l2 len by simp
  show ?thesis
    unfolding dd lp by simp
qed

text \<open>The definitions that evaluate the string functions on a literal.\<close>

lemmas str_eval = starts_with_def lit_match_def class_match_def py_replace_def py_strip_def
  py_isspace_def py_contains_def py_split_once_def

lemmas clean_text_eval = clean_text_def ansi_match_def bracket_match_def until_match_def
  greedy_dot_match_def is_digit_semi_def is_digit_def str_eval

theorem decode_day_legacy_witness:
  "plans (decode_day (\<lambda>v. []) (U ''Fri'') (U ''9-5|yes| 5|yes|6|read|'') (default_day (U ''Fri''))) =
     [\<lparr>name = U ''Dollar General'', details = U ''5''\<rparr>, \<lparr>name = U ''JJ Pizza'', details = U ''6''\<rparr>]
   \<and> goals (decode_day (\<lambda>v. []) (U ''Fri'') (U ''9-5|yes| 5|yes|6|read|'') (default_day (U ''Fri'')))
       = U ''read''"
proof -
  have nosep: "py_find PLAN_SAVE_SEPARATOR (U ''9-5|yes| 5|yes|6|read|'') = None"
    by (simp add: PLAN_SAVE_SEPARATOR_def starts_with_def)
  have ld: "[U ''9-5'', U ''yes'', U '' 5'', U ''yes'', U ''6'', U ''read'', []]
      = py_split 124 (unescape_shell (U ''9-5|yes| 5|yes|6|read|''))"
    by (simp add: unescape_shell_def str_eval)
  have c2: "clean_text (U '' 5'') = U ''5''" by (simp add: clean_text_eval)
  have c4: "clean_text (U ''6'') = U ''6''" by (simp add: clean_text_eval)
  have c5: "clean_text (U ''read'') = U ''read''" by (simp add: clean_text_eval)
  have c6: "clean_text [] = []" by (simp add: clean_text_def)
  show ?thesis
    using decode_day_legacy [OF nosep ld, of "\<lambda>v. []" "U ''Fri''" "default_day (U ''Fri'')"]
      c2 c4 c5 c6
    by simp
qed

text \<open>
  C5, as stated, fails: the details are not the fields themselves. Field 2 of this
  record is \<^verbatim>\<open>" 5"\<close>, with a space, and the plan's details are \<^verbatim>\<open>"5"\<close>.
\<close>

theorem legacy_details_not_raw:
  "py_find PLAN_SAVE_SEPARATOR (U ''9-5|yes| 5|yes|6|read|'') = None
   \<and> py_split 124 (unescape_shell (U ''9-5|yes| 5|yes|6|read|''))
       = [U ''9-5'', U ''yes'', U '' 5'', U ''yes'', U ''6'', U ''read'', []]
   \<and> plans (decode_day (\<lambda>v. []) (U ''Fri'') (U ''9-5|yes| 5|yes|6|read|'') (default_day (U ''Fri'')))
       = [\<lparr>name = U ''Dollar General'', details = U ''5''\<rparr>,
          \<lparr>name = U ''JJ Pizza'', details = U ''6''\<rparr>]"
  by (simp add: decode_day_def legacy_plans_def yes_no_def unescape_shell_def
      PLAN_SAVE_SEPARATOR_def clean_text_eval)

text \<open>More definitions for evaluation.\<close>

lemmas search_eval = match_day_at_def day_prefix_def starts_with_def

lemmas json_eval = json_loads_def skip_ws_def is_json_ws_def scan_once.simps
  parse_array_items.simps parse_object_items.simps scan_atom_def match_number_def
  number_fraction_def number_exponent_def is_digit_def

lemmas decode_eval = decode_day_def parse_plans_def legacy_plans_def yes_no_def
  unescape_shell_def PLAN_SAVE_SEPARATOR_def default_day_def dict_get_def
  DEFAULT_STUDY_TIMES_def

lemma leaking_Wed: "re_search_day (U ''Wed'') leaking_file = Some (U ''a|b||PLANS||[schedule[Thur]='')"
  by (simp add: leaking_file_def search_eval)
lemma leaking_Thur: "re_search_day (U ''Thur'') leaking_file = Some ([10] @ U ''schedule[Thur]='')"
  by (simp add: leaking_file_def search_eval)
lemma leaking_Sun: "re_search_day (U ''Sun'') leaking_file = None"
  by (simp add: leaking_file_def search_eval)
lemma corrupt1: "json_segment_corrupt (U ''a|b||PLANS||[schedule[Thur]='')"
  by (simp add: json_segment_corrupt_def PLAN_SAVE_SEPARATOR_def unescape_shell_def str_eval json_eval)
lemma dec1: "decode_day (\<lambda>v. []) (U ''Thur'') ([10] @ U ''schedule[Thur]='') (default_day (U ''Thur''))
   = \<lparr>study_time = U ''schedule[Thur]='', goals = [], plans = []\<rparr>"
  by (simp add: decode_eval clean_text_eval)
lemma dec2: "decode_day (\<lambda>v. []) (U ''Thur'') (U ''x|y||PLANS||[]'') (default_day (U ''Thur''))
   = \<lparr>study_time = U ''x'', goals = U ''y'', plans = []\<rparr>"
  by (simp add: decode_eval clean_text_eval json_eval)

lemma leaking_other:
  "re_search_day (U ''Monday'') leaking_file = None"
  "re_search_day (U ''Tues'') leaking_file = None"
  "re_search_day (U ''Fri'') leaking_file = None"
  "re_search_day (U ''Sat'') leaking_file = None"
  by (simp_all add: leaking_file_def search_eval)

lemma not_corrupt1: "\<not> json_segment_corrupt ([10] @ U ''schedule[Thur]='')"
  by (simp add: json_segment_corrupt_def PLAN_SAVE_SEPARATOR_def str_eval)

lemma repaired_Thur: "re_search_day (U ''Thur'') repaired_file = Some (U ''x|y||PLANS||[]'')"
  by (simp add: repaired_file_def search_eval)

text \<open>
  Claim C6 (a corrupt JSON segment of one day leaves the other days as they are)
  does not hold of the code. In \<open>leaking_file\<close> only the JSON segment of \<^verbatim>\<open>Wed\<close> is
  corrupt, and \<open>repaired_file\<close> is the same file without the corruption. The search
  for \<^verbatim>\<open>schedule[Thur]="\<close> is not anchored at the start of a line: in
  \<open>leaking_file\<close> it first matches at the end of the line of \<^verbatim>\<open>Wed\<close>, inside the
  corrupt segment, so \<^verbatim>\<open>Thur\<close> is decoded from the wrong text and loses the study
  time and the goals it has in \<open>repaired_file\<close>.
\<close>

theorem corrupt_json_leaks:
  "re_search_day (U ''Wed'') leaking_file = Some (U ''a|b||PLANS||[schedule[Thur]='')
   \<and> json_segment_corrupt (U ''a|b||PLANS||[schedule[Thur]='')
   \<and> filter (\<lambda>d. case re_search_day d leaking_file of
                    Some data_str \<Rightarrow> json_segment_corrupt data_str | None \<Rightarrow> False) DAYS
       = [U ''Wed'']
   \<and> (case load_schedule_data (\<lambda>v. []) (Content leaking_file) of
         Inr w \<Rightarrow> w (U ''Thur'') | Inl e \<Rightarrow> None)
       = Some \<lparr>study_time = U ''schedule[Thur]='', goals = [], plans = []\<rparr>
   \<and> (case load_schedule_data (\<lambda>v. []) (Content repaired_file) of
         Inr w \<Rightarrow> w (U ''Thur'') | Inl e \<Rightarrow> None)
       = Some \<lparr>study_time = U ''x'', goals = U ''y'', plans = []\<rparr>"
  using dec1 dec2 leaking_Wed leaking_Thur leaking_Sun leaking_other corrupt1 not_corrupt1
    repaired_Thur
  by (simp add: load_schedule_data_Content load_content_apply day_result_def DAYS_def)


section \<open>Saving then loading: the claims\<close>

lemma py_replace_single:
  "py_replace [a] r s = concat (map (\<lambda>c. if c = a then r else [c]) s)"
  by (induction s) (simp_all add: py_replace_def lit_match_def starts_with_def)

lemma escape_shell_concat: "escape_shell x = concat (map esc_char x)"
  unfolding escape_shell_def py_replace_single
  by (induction x) (simp_all add: esc_char_def)

lemma escape_shell_append: "escape_shell (a @ b) = escape_shell a @ escape_shell b"
  by (simp add: escape_shell_concat)

lemma escape_shell_Nil: "escape_shell [] = []"
  by (simp add: escape_shell_concat)

lemma escape_shell_plain:
  "34 \<notin> set a \<Longrightarrow> 92 \<notin> set a \<Longrightarrow> escape_shell a = a"
  unfolding escape_shell_concat by (induction a) (auto simp: esc_char_def)

lemma escape_shell_hd: "escape_shell x \<noteq> [] \<Longrightarrow> hd (escape_shell x) \<noteq> 34"
  by (cases x) (auto simp: escape_shell_concat esc_char_def)

lemma escape_shell_set: "c \<in> set (escape_shell x) \<Longrightarrow> c = 92 \<or> c \<in> set x"
  by (auto simp: escape_shell_concat esc_char_def split: if_splits)

text \<open>First pass of the unescape: the escaped quotes.\<close>

lemma unescape_quotes:
  "py_replace [92, 34] [34] (escape_shell x) = py_replace [92] [92, 92] x"
proof (induction x)
  case Nil
  show ?case by (simp add: escape_shell_concat py_replace_def)
next
  case (Cons c x)
  have nq: "\<not> starts_with [92, 34] (92 # escape_shell x)"
    using escape_shell_hd [of x]
    by (cases "escape_shell x") (auto simp: starts_with_def)
  show ?case
  proof (cases "c = 92")
    case True
    have "py_replace [92, 34] [34] (92 # 92 # escape_shell x)
        = 92 # 92 # py_replace [92, 34] [34] (escape_shell x)"
      using nq by (simp add: py_replace_def lit_match_def) (simp add: starts_with_def)
    with True Cons show ?thesis
      by (simp add: escape_shell_concat esc_char_def py_replace_single)
  next
    case False
    then show ?thesis using Cons
      by (cases "c = 34")
        (simp_all add: escape_shell_concat esc_char_def py_replace_single py_replace_def
          lit_match_def starts_with_def)
  qed
qed

lemma unescape_backslashes: "py_replace [92, 92] [92] (py_replace [92] [92, 92] x) = x"
  unfolding py_replace_single
  by (induction x) (simp_all add: py_replace_def lit_match_def starts_with_def)

lemma unescape_escape: "unescape_shell (escape_shell x) = x"
  by (simp add: unescape_shell_def unescape_quotes unescape_backslashes)

lemma py_find_skip:
  "124 \<notin> set a \<Longrightarrow>
   py_find PLAN_SAVE_SEPARATOR (a @ s) = map_option (\<lambda>i. length a + i) (py_find PLAN_SAVE_SEPARATOR s)"
proof (induction a)
  case Nil
  show ?case by (simp add: option.map_ident)
next
  case (Cons c a)
  then have "\<not> starts_with PLAN_SAVE_SEPARATOR (c # a @ s)"
    by (auto simp: starts_with_def PLAN_SAVE_SEPARATOR_def)
  with Cons show ?case by (simp add: option.map_comp comp_def)
qed

lemma py_find_sep_here:
  "py_find PLAN_SAVE_SEPARATOR (PLAN_SAVE_SEPARATOR @ s) = Some 0"
  by (simp add: PLAN_SAVE_SEPARATOR_def starts_with_def)

lemma py_find_legacy:
  assumes a: "124 \<notin> set a" and b: "124 \<notin> set b"
  shows "py_find PLAN_SAVE_SEPARATOR (a @ [124] @ b @ PLAN_SAVE_SEPARATOR @ j)
         = Some (length (a @ [124] @ b))"
proof -
  have nohere: "\<not> starts_with PLAN_SAVE_SEPARATOR (124 # b @ PLAN_SAVE_SEPARATOR @ j)"
    using b by (cases b) (auto simp: starts_with_def PLAN_SAVE_SEPARATOR_def)
  have "py_find PLAN_SAVE_SEPARATOR (124 # b @ PLAN_SAVE_SEPARATOR @ j)
        = map_option Suc (py_find PLAN_SAVE_SEPARATOR (b @ PLAN_SAVE_SEPARATOR @ j))"
    using nohere by simp
  also have "\<dots> = Some (Suc (length b))"
    by (simp add: py_find_skip [OF b] py_find_sep_here)
  finally show ?thesis
    by (simp add: py_find_skip [OF a])
qed

lemma drop_length_append: "drop (length xs) (xs @ ys) = ys"
  by simp

lemma py_split_once_legacy:
  assumes a: "124 \<notin> set a" and b: "124 \<notin> set b"
  shows "py_split_once PLAN_SAVE_SEPARATOR (a @ [124] @ b @ PLAN_SAVE_SEPARATOR @ j)
         = (a @ [124] @ b, Some j)"
proof -
  have len: "length PLAN_SAVE_SEPARATOR = 9" by (simp add: PLAN_SAVE_SEPARATOR_def)
  have t: "take (Suc (length a + length b)) (a @ 124 # b @ PLAN_SAVE_SEPARATOR @ j) = a @ 124 # b"
    by simp
  have d0: "drop (length (a @ 124 # b @ PLAN_SAVE_SEPARATOR))
             ((a @ 124 # b @ PLAN_SAVE_SEPARATOR) @ j) = j"
    by (rule drop_length_append)
  have l0: "length (a @ 124 # b @ PLAN_SAVE_SEPARATOR) = Suc (length a + length b) + 9"
    by (simp add: len)
  have d: "drop (Suc (length a + length b) + 9) (a @ 124 # b @ PLAN_SAVE_SEPARATOR @ j) = j"
    using d0 unfolding l0 by simp
  show ?thesis
    unfolding py_split_once_def py_find_legacy [OF a b] using t d
    by (simp add: len)
qed

lemma py_split_none: "d \<notin> set g \<Longrightarrow> py_split d g = [g]"
  by (induction g) auto

lemma py_split_one: "d \<notin> set a \<Longrightarrow> py_split d (a @ d # g) = a # py_split d g"
  by (induction a) auto

lemma py_split_two:
  "124 \<notin> set a \<Longrightarrow> 124 \<notin> set b \<Longrightarrow> py_split 124 (a @ [124] @ b) = [a, b]"
  by (simp add: py_split_one py_split_none)

lemma scanstring_escape_char:
  "scanstring (json_escape_char c @ t)
     = (case scanstring t of None \<Rightarrow> None | Some (u, r) \<Rightarrow> Some (c # u, r))"
proof -
  consider (ctl) "c < 32" "c \<notin> {8, 9, 10, 12, 13}" | (named) "c \<in> {8, 9, 10, 12, 13, 34, 92}"
    | (plain) "32 \<le> c" "c \<noteq> 34" "c \<noteq> 92"
    by fastforce
  then show ?thesis
  proof cases
    case ctl
    have d: "c div 16 < 2" "c mod 16 < 16" using ctl by simp_all
    have h1: "hex_val (hex_digit (c div 16)) = Some (c div 16)"
      using d by (auto simp: hex_val_def hex_digit_def)
    have h2: "hex_val (hex_digit (c mod 16)) = Some (c mod 16)"
      using d by (auto simp: hex_val_def hex_digit_def)
    have h0: "hex_val 48 = Some 0" by (simp add: hex_val_def)
    have u: "uni_escape (48 # 48 # hex_digit (c div 16) # hex_digit (c mod 16) # t) = Some (c, t)"
      using ctl by (simp add: uni_escape_def hex4_def h0 h1 h2 Let_def)
    have e: "json_escape_char c = [92, 117, 48, 48, hex_digit (c div 16), hex_digit (c mod 16)]"
      using ctl by (simp add: json_escape_char_def)
    show ?thesis
      unfolding e by (simp add: u split: option.splits)
  next
    case named
    then show ?thesis
      by (auto simp: json_escape_char_def simple_escape_def split: option.splits)
  next
    case plain
    then show ?thesis
      by (auto simp: json_escape_char_def split: option.splits)
  qed
qed

lemma scanstring_body:
  "scanstring (concat (map json_escape_char x) @ 34 # rest) = Some (x, rest)"
  by (induction x) (simp_all add: scanstring_escape_char)

lemma scan_once_json_string:
  "scan_once (json_string x @ rest) = Some (JStr x, rest)"
  by (simp add: json_string_def scan_once.simps scanstring_body)

lemma json_string_Cons: "json_string x = 34 # concat (map json_escape_char x) @ [34]"
  by (simp add: json_string_def)

lemma skip_ws_Cons: "skip_ws (c # cs) = (if is_json_ws c then skip_ws cs else c # cs)"
  by (simp add: skip_ws_def)

lemma parse_details_member:
  "parse_object_items (34 # U ''details'' @ [34, 58, 32] @ json_string d @ 125 # rest)
     = Some ([(U ''details'', JStr d)], rest)"
  by (subst parse_object_items.simps)
    (simp add: skip_ws_Cons is_json_ws_def scan_once_json_string
      json_string_Cons scan_once.simps scanstring_body)

lemma parse_name_member:
  "parse_object_items (34 # U ''name'' @ [34, 58, 32] @ json_string n @ [44, 32]
       @ 34 # U ''details'' @ [34, 58, 32] @ json_string d @ 125 # rest)
     = Some ([(U ''name'', JStr n), (U ''details'', JStr d)], rest)"
proof -
  have inner: "parse_object_items (34 # 100 # 101 # 116 # 97 # 105 # 108 # 115 # 34 # 58 # 32
          # json_string d @ 125 # rest) = Some ([(U ''details'', JStr d)], rest)"
    using parse_details_member [of d rest] by simp
  have sc: "scan_once (34 # concat (map json_escape_char n) @ 34 # t) = Some (JStr n, t)" for t
    by (simp add: scan_once.simps scanstring_body)
  show ?thesis
    by (subst parse_object_items.simps)
      (simp add: skip_ws_Cons is_json_ws_def json_string_Cons [of n] sc inner)
qed

lemma json_plan_Cons:
  "json_plan p = 123 # 34 # U ''name'' @ [34, 58, 32] @ json_string (name p) @ [44, 32]
       @ 34 # U ''details'' @ [34, 58, 32] @ json_string (details p) @ [125]"
  by (simp add: json_plan_def)

lemma scan_once_json_plan:
  "scan_once (json_plan p @ rest) = Some (plan_json p, rest)"
proof -
  have m: "parse_object_items (34 # 110 # 97 # 109 # 101 # 34 # 58 # 32 # json_string (name p)
        @ 44 # 32 # 34 # 100 # 101 # 116 # 97 # 105 # 108 # 115 # 34 # 58 # 32
        # json_string (details p) @ 125 # rest)
      = Some ([(U ''name'', JStr (name p)), (U ''details'', JStr (details p))], rest)"
    using parse_name_member [of "name p" "details p" rest] by simp
  show ?thesis
    unfolding json_plan_Cons
    by (simp add: scan_once.simps skip_ws_Cons is_json_ws_def m plan_json_def)
qed

lemma json_plan_hd: "\<exists>t. json_plan p = 123 # t"
  by (simp add: json_plan_Cons)

lemma py_join_plans_hd: "\<exists>t. py_join sep (json_plan p # map json_plan ps) = 123 # t"
  using json_plan_hd [of p] by (cases ps) auto

lemma parse_array_items_plans:
  "parse_array_items (py_join (U '', '') (map json_plan (p # ps)) @ 93 # rest)
     = Some (map plan_json (p # ps), rest)"
proof (induction ps arbitrary: p)
  case Nil
  show ?case
    by (subst parse_array_items.simps)
      (simp add: scan_once_json_plan skip_ws_Cons is_json_ws_def)
next
  case (Cons q qs)
  obtain t where t: "py_join [44, 32] (json_plan q # map json_plan qs) = 123 # t"
    using py_join_plans_hd by blast
  have sk: "skip_ws (32 # py_join [44, 32] (json_plan q # map json_plan qs) @ 93 # rest)
       = py_join [44, 32] (json_plan q # map json_plan qs) @ 93 # rest"
    using t by (simp add: skip_ws_Cons is_json_ws_def)
  have ih: "parse_array_items (py_join [44, 32] (json_plan q # map json_plan qs) @ 93 # rest)
     = Some (plan_json q # map plan_json qs, rest)"
    using Cons.IH [of q] by simp
  have step: "scan_once (json_plan p @ 44 # 32 # py_join (U '', '') (map json_plan (q # qs)) @ 93 # rest)
      = Some (plan_json p, 44 # 32 # py_join (U '', '') (map json_plan (q # qs)) @ 93 # rest)"
    by (rule scan_once_json_plan)
  have j: "py_join (U '', '') (map json_plan (p # q # qs)) @ 93 # rest
      = json_plan p @ 44 # 32 # py_join (U '', '') (map json_plan (q # qs)) @ 93 # rest"
    by simp
  have ne: "json_plan p \<noteq> []" using json_plan_hd [of p] by auto
  show ?case
    unfolding j
    apply (subst parse_array_items.simps)
    apply (simp only: step option.case prod.case)
    apply (simp only: skip_ws_Cons [of 44] is_json_ws_def)
    apply (simp add: sk ih ne)
    done
qed

lemma json_loads_dumps:
  "json_loads (json_dumps_plans ps) = Inr (JArr (map plan_json ps))"
proof (cases ps)
  case Nil
  then show ?thesis
    by (simp add: json_loads_def json_dumps_plans_def skip_ws_Cons is_json_ws_def
        scan_once.simps skip_ws_def)
next
  case (Cons p qs)
  obtain t where t: "py_join [44, 32] (json_plan p # map json_plan qs) = 123 # t"
    using py_join_plans_hd by blast
  have pa: "parse_array_items (123 # t @ [93]) = Some (map plan_json (p # qs), [])"
    using parse_array_items_plans [of p qs "[]"] t by simp
  have d: "json_dumps_plans ps = 91 # 123 # t @ [93]"
    using t by (simp add: json_dumps_plans_def Cons)
  show ?thesis
    unfolding d json_loads_def
    by (simp add: skip_ws_Cons is_json_ws_def scan_once.simps pa Cons skip_ws_def)
qed

lemma json_dumps_plans_shape: "\<exists>m. json_dumps_plans ps = 91 # m @ [93]"
  by (simp add: json_dumps_plans_def)

lemma py_strip_id:
  "\<not> py_isspace c \<Longrightarrow> \<not> py_isspace e \<Longrightarrow> py_strip (c # m @ [e]) = c # m @ [e]"
  by (simp add: py_strip_def)

lemma py_strip_dumps: "py_strip (json_dumps_plans ps) = json_dumps_plans ps"
proof -
  obtain m where m: "json_dumps_plans ps = 91 # m @ [93]"
    using json_dumps_plans_shape by blast
  show ?thesis
    unfolding m by (rule py_strip_id) (simp_all add: py_isspace_def)
qed

lemma sanitize_input_eq:
  "sanitize_input s = (if s = U ''DIEEEEE'' then s else filter (\<lambda>c. c \<notin> code_removed) s)"
  by (simp add: sanitize_input_def re_sub_class_filter sanitize_class_code_removed)

lemma sanitize_input_idem: "sanitize_input (sanitize_input s) = sanitize_input s"
  by (simp add: sanitize_input_eq)

lemma item_str_plan_json:
  "item_str str_of [(U ''name'', JStr n), (U ''details'', JStr d)] (U ''name'') = n"
  "item_str str_of [(U ''name'', JStr n), (U ''details'', JStr d)] (U ''details'') = d"
  by (simp_all add: item_str_def obj_get_def)

lemma validate_plans_plan_json:
  "\<forall>p\<in>set ps. sanitize_input (name p) = name p \<and> name p \<noteq> []
       \<and> sanitize_input (details p) = details p \<Longrightarrow>
   validate_plans str_of (map plan_json ps) = ps"
proof (induction ps)
  case Nil
  show ?case by simp
next
  case (Cons p ps)
  have "validate_plans str_of (plan_json p # map plan_json ps)
      = \<lparr>name = name p, details = details p\<rparr> # validate_plans str_of (map plan_json ps)"
    using Cons.prems
    by (simp add: plan_json_def item_str_def obj_get_def Let_def)
  with Cons show ?case by simp
qed

lemma valid_plans_sanitized:
  "\<forall>p\<in>set (valid_plans ps). sanitize_input (name p) = name p \<and> name p \<noteq> []
       \<and> sanitize_input (details p) = details p"
  by (induction ps) (simp_all add: sanitize_input_idem)

lemma parse_plans_dumps:
  "parse_plans str_of (escape_shell (json_dumps_plans (valid_plans ps))) = valid_plans ps"
proof -
  have ne: "json_dumps_plans (valid_plans ps) \<noteq> []"
    using json_dumps_plans_shape [of "valid_plans ps"] by auto
  show ?thesis
    unfolding parse_plans_def unescape_escape py_strip_dumps Let_def
    using ne
    by (simp add: json_loads_dumps validate_plans_plan_json [OF valid_plans_sanitized])
qed

lemma escape_shell_no_pipe: "124 \<notin> set x \<Longrightarrow> 124 \<notin> set (escape_shell x)"
  using escape_shell_set [of 124 x] by auto

lemma escape_shell_nonempty: "x \<noteq> [] \<Longrightarrow> escape_shell x \<noteq> []"
  by (cases x) (auto simp: escape_shell_concat esc_char_def)

lemma unescape_legacy:
  "unescape_shell (escape_shell a @ [124] @ escape_shell b) = a @ [124] @ b"
proof -
  have "escape_shell a @ [124] @ escape_shell b = escape_shell (a @ [124] @ b)"
    by (simp add: escape_shell_concat esc_char_def)
  then show ?thesis by (simp only: unescape_escape)
qed

lemma decode_day_combined:
  assumes st: "st = sanitize_input (study_time day_data)"
    and g: "g = sanitize_input (goals day_data)"
    and p1: "124 \<notin> set st" and p2: "124 \<notin> set g"
    and c1: "clean_text st = st" and c2: "clean_text g = g"
    and ne: "st \<noteq> []" and inf: "\<not> py_contains (U ''information'') st"
  shows "decode_day str_of day (combined_data day_data) entry
         = \<lparr>study_time = st, goals = g, plans = valid_plans (plans day_data)\<rparr>"
proof -
  let ?J = "escape_shell (json_dumps_plans (valid_plans (plans day_data)))"
  have cd: "combined_data day_data
      = escape_shell st @ [124] @ escape_shell g @ PLAN_SAVE_SEPARATOR @ ?J"
    by (simp add: combined_data_def st g)
  have sp: "py_split_once PLAN_SAVE_SEPARATOR (combined_data day_data)
      = (escape_shell st @ [124] @ escape_shell g, Some ?J)"
    unfolding cd
    by (rule py_split_once_legacy [OF escape_shell_no_pipe [OF p1] escape_shell_no_pipe [OF p2]])
  have ld: "py_split 124 (unescape_shell (escape_shell st @ [124] @ escape_shell g)) = [st, g]"
    unfolding unescape_legacy by (rule py_split_two [OF p1 p2])
  have "json_dumps_plans (valid_plans (plans day_data)) \<noteq> []"
    using json_dumps_plans_shape [of "valid_plans (plans day_data)"] by auto
  then have jne: "?J \<noteq> []"
    by (rule escape_shell_nonempty)
  have "decode_day str_of day (combined_data day_data) entry
      = entry\<lparr>study_time := st, goals := g, plans := valid_plans (plans day_data)\<rparr>"
    unfolding decode_day_def sp prod.case ld Let_def
    using jne ne inf by (simp add: c1 c2 parse_plans_dumps)
  then show ?thesis by simp
qed

lemma eqq_free_append:
  "eqq_free (a @ b) \<longleftrightarrow>
     eqq_free a \<and> eqq_free b \<and> \<not> (a \<noteq> [] \<and> b \<noteq> [] \<and> last a = 61 \<and> hd b = 34)"
proof (induction a rule: eqq_free.induct)
  case 1
  show ?case by simp
next
  case (2 c)
  show ?case by (cases b) auto
next
  case (3 c e r)
  then show ?case by auto
qed

lemma eqq_free_no_quote: "34 \<notin> set s \<Longrightarrow> eqq_free s"
  by (induction s rule: eqq_free.induct) auto

lemma eqq_free_factor: "\<not> eqq_free (x @ 61 # 34 # y)"
  by (simp add: eqq_free_append)

lemma unique_factor:
  assumes a: "eqq_free a"
    and eq: "a @ 61 # 34 # b = x @ 61 # 34 # y"
  shows "x = a \<or> (\<exists>x'. x = a @ 61 # 34 # x' \<and> b = x' @ 61 # 34 # y)"
proof -
  from eq obtain us where
    "(a = x @ us \<and> us @ 61 # 34 # b = 61 # 34 # y) \<or> (a @ us = x \<and> 61 # 34 # b = us @ 61 # 34 # y)"
    by (auto simp: append_eq_append_conv2)
  then show ?thesis
  proof
    assume h: "a = x @ us \<and> us @ 61 # 34 # b = 61 # 34 # y"
    show ?thesis
    proof (cases us)
      case Nil
      with h show ?thesis by simp
    next
      case (Cons c1 us1)
      note c1 = this
      show ?thesis
      proof (cases us1)
        case Nil
        with h c1 show ?thesis by simp
      next
        case (Cons c2 us2)
        with h c1 have "a = x @ 61 # 34 # us2" by simp
        with a eqq_free_factor show ?thesis by simp
      qed
    qed
  next
    assume h: "a @ us = x \<and> 61 # 34 # b = us @ 61 # 34 # y"
    show ?thesis
    proof (cases us)
      case Nil
      with h show ?thesis by simp
    next
      case (Cons c1 us1)
      note c1 = this
      show ?thesis
      proof (cases us1)
        case Nil
        with h c1 show ?thesis by simp
      next
        case (Cons c2 us2)
        with h c1 show ?thesis by auto
      qed
    qed
  qed
qed

lemma day_prefix_key: "day_prefix day = day_key day @ [61, 34]"
  by (simp add: day_prefix_def day_key_def)

lemma eqq_free_day_key: "d \<in> set DAYS \<Longrightarrow> eqq_free (day_key d)"
  by (auto simp: DAYS_def day_key_def)

lemma day_key_hd: "hd (day_key d) \<noteq> 34" "day_key d \<noteq> []"
  by (simp_all add: day_key_def)

text \<open>A file of lines: each line is the day's key, \<open>="\<close>, and a tail.\<close>

lemma eqq_splits:
  assumes "eqq_free h" "set ds \<subseteq> set DAYS" "\<forall>d\<in>set ds. eqq_free (tl_of d)"
    and "h @ concat (map (key_line tl_of) ds) = x @ 61 # 34 # y"
  shows "\<exists>ds1 d ds2. ds = ds1 @ d # ds2 \<and> x = h @ concat (map (key_line tl_of) ds1) @ day_key d"
  using assms
proof (induction ds arbitrary: h x)
  case Nil
  then show ?case using eqq_free_factor by auto
next
  case (Cons d ds)
  have d: "d \<in> set DAYS" using Cons.prems(2) by simp
  have hk: "eqq_free (h @ day_key d)"
    using Cons.prems(1) eqq_free_day_key [OF d] day_key_hd [of d]
    by (simp add: eqq_free_append)
  have c: "concat (map (key_line tl_of) (d # ds))
      = key_line tl_of d @ concat (map (key_line tl_of) ds)"
    by simp
  have k: "key_line tl_of d = day_key d @ 61 # 34 # tl_of d"
    by (simp add: key_line_def)
  have "h @ (day_key d @ 61 # 34 # tl_of d) @ concat (map (key_line tl_of) ds) = x @ 61 # 34 # y"
    using Cons.prems(4) by (simp only: c k)
  then have eq: "(h @ day_key d) @ 61 # 34 # (tl_of d @ concat (map (key_line tl_of) ds)) = x @ 61 # 34 # y"
    by simp
  from unique_factor [OF hk eq]
  consider "x = h @ day_key d"
    | x' where "x = (h @ day_key d) @ 61 # 34 # x'"
        "tl_of d @ concat (map (key_line tl_of) ds) = x' @ 61 # 34 # y"
    by blast
  then show ?case
  proof cases
    case 1
    then have "d # ds = [] @ d # ds \<and> x = h @ concat (map (key_line tl_of) []) @ day_key d"
      by simp
    then show ?thesis by blast
  next
    case 2
    have t: "eqq_free (tl_of d)" using Cons.prems(3) by simp
    have s: "set ds \<subseteq> set DAYS" using Cons.prems(2) by simp
    have a: "\<forall>d\<in>set ds. eqq_free (tl_of d)" using Cons.prems(3) by simp
    from Cons.IH [OF t s a 2(2)]
    obtain ds1 d' ds2 where
      ds: "ds = ds1 @ d' # ds2" and x': "x' = tl_of d @ concat (map (key_line tl_of) ds1) @ day_key d'"
      by blast
    have "d # ds = (d # ds1) @ d' # ds2
        \<and> x = h @ concat (map (key_line tl_of) (d # ds1)) @ day_key d'"
      using ds x' 2(1) by (simp add: key_line_def)
    then show ?thesis by blast
  qed
qed

lemma last_day_inj: "d \<in> set DAYS \<Longrightarrow> d' \<in> set DAYS \<Longrightarrow> last d = last d' \<Longrightarrow> d = d'"
  by (auto simp: DAYS_def)

lemma day_nonempty: "d \<in> set DAYS \<Longrightarrow> d \<noteq> []"
  by (auto simp: DAYS_def)

lemma key_suffix_eq:
  assumes d: "d \<in> set DAYS" and d': "d' \<in> set DAYS"
    and eq: "u @ day_key d = z @ day_key d'"
  shows "d = d' \<and> u = z"
proof -
  have "last (butlast (u @ day_key d)) = last d"
    using day_nonempty [OF d] by (simp add: day_key_def butlast_append)
  moreover have "last (butlast (z @ day_key d')) = last d'"
    using day_nonempty [OF d'] by (simp add: day_key_def butlast_append)
  ultimately have "last d = last d'" using eq by simp
  then have dd: "d = d'" by (rule last_day_inj [OF d d'])
  with eq show ?thesis by simp
qed

lemma starts_with_split: "starts_with p s \<Longrightarrow> s = p @ drop (length p) s"
  by (metis append_take_drop_id starts_with_def)

lemma match_day_at_None: "\<not> starts_with (day_prefix d) s \<Longrightarrow> match_day_at d s = None"
  by (simp add: match_day_at_def)

lemma search_skip:
  "(\<forall>k<length a. \<not> starts_with (day_prefix d) (drop k (a @ b))) \<Longrightarrow>
   re_search_day d (a @ b) = re_search_day d b"
proof (induction a)
  case Nil
  show ?case by simp
next
  case (Cons c a)
  have "\<not> starts_with (day_prefix d) (drop 0 ((c # a) @ b))"
    using Cons.prems by blast
  then have m: "match_day_at d (c # a @ b) = None"
    by (simp add: match_day_at_None)
  have "\<forall>k<length a. \<not> starts_with (day_prefix d) (drop k (a @ b))"
  proof (intro allI impI)
    fix k assume "k < length a"
    then have "Suc k < length (c # a)" by simp
    with Cons.prems have "\<not> starts_with (day_prefix d) (drop (Suc k) ((c # a) @ b))" by blast
    then show "\<not> starts_with (day_prefix d) (drop k (a @ b))" by simp
  qed
  with Cons.IH m show ?case by simp
qed

lemma search_here: "match_day_at d s = Some m \<Longrightarrow> re_search_day d s = Some m"
  by (cases s) simp_all

lemma scan_quoted_esc_char:
  "scan_quoted (esc_char c @ e # t)
     = (esc_char c @ fst (scan_quoted (e # t)), snd (scan_quoted (e # t)))"
  by (auto simp: esc_char_def split: prod.splits)

lemma scan_quoted_escaped: "scan_quoted (escape_shell w @ 34 # z) = (escape_shell w, 34 # z)"
proof (induction w)
  case Nil
  show ?case by (cases z) (simp_all add: escape_shell_Nil)
next
  case (Cons c w)
  obtain e t where et: "escape_shell w @ 34 # z = e # t"
    by (cases "escape_shell w @ 34 # z") auto
  have "scan_quoted (escape_shell (c # w) @ 34 # z) = scan_quoted (esc_char c @ e # t)"
    using et by (simp add: escape_shell_concat)
  also have "\<dots> = (esc_char c @ fst (scan_quoted (e # t)), snd (scan_quoted (e # t)))"
    by (rule scan_quoted_esc_char)
  also have "\<dots> = (esc_char c @ escape_shell w, 34 # z)"
    using Cons.IH et by simp
  finally show ?case by (simp add: escape_shell_concat)
qed

lemma match_day_at_line:
  "match_day_at d (day_prefix d @ escape_shell w @ 34 # z) = Some (escape_shell w)"
  by (simp add: match_day_at_def starts_with_def scan_quoted_escaped)

lemma eqq_free_escape: "eqq_free (escape_shell w)"
proof (induction w)
  case Nil
  show ?case by (simp add: escape_shell_Nil)
next
  case (Cons c w)
  have e: "eqq_free (esc_char c)" by (simp add: esc_char_def)
  have "escape_shell (c # w) = esc_char c @ escape_shell w"
    by (simp add: escape_shell_concat)
  then show ?case
    using e Cons.IH escape_shell_hd [of w] by (auto simp: eqq_free_append)
qed

lemma combined_data_escaped:
  "\<exists>w. combined_data dd = escape_shell (w @ [93])"
proof -
  obtain m where m: "json_dumps_plans (valid_plans (plans dd)) = 91 # m @ [93]"
    using json_dumps_plans_shape by blast
  have p: "escape_shell [124] = [124]" "escape_shell PLAN_SAVE_SEPARATOR = PLAN_SAVE_SEPARATOR"
    by (simp_all add: escape_shell_concat esc_char_def PLAN_SAVE_SEPARATOR_def)
  have "combined_data dd = escape_shell ((sanitize_input (study_time dd) @ [124]
      @ sanitize_input (goals dd) @ PLAN_SAVE_SEPARATOR @ 91 # m) @ [93])"
    unfolding combined_data_def m
    by (simp add: escape_shell_concat esc_char_def PLAN_SAVE_SEPARATOR_def)
  then show ?thesis by blast
qed

lemma eqq_free_tail: "eqq_free (combined_data dd @ [34, 10])"
proof -
  obtain w where w: "combined_data dd = escape_shell (w @ [93])"
    using combined_data_escaped by blast
  have l: "last (escape_shell (w @ [93])) = 93"
    by (simp add: escape_shell_append) (simp add: escape_shell_concat esc_char_def)
  show ?thesis
    unfolding w using l by (simp add: eqq_free_append eqq_free_escape)
qed

lemma eqq_free_header:
  assumes "34 \<notin> set date"
  shows "eqq_free (file_header date)"
proof -
  obtain h2 where h: "file_header date = U ''# Schedule data saved on '' @ date @ 10 # h2"
    and h2: "eqq_free (10 # h2)"
    by (simp add: file_header_def DAYS_def)
  have h1: "eqq_free (U ''# Schedule data saved on '')" by simp
  have d: "eqq_free date" using assms by (rule eqq_free_no_quote)
  have "eqq_free (date @ 10 # h2)"
    using d h2 by (simp add: eqq_free_append)
  moreover have "date @ 10 # h2 \<noteq> [] \<and> hd (date @ 10 # h2) \<noteq> 34"
    using assms by (cases date) auto
  ultimately show ?thesis
    unfolding h using h1 by (simp only: eqq_free_append) simp
qed

lemma file_text_lines:
  "file_text date W = file_header date @ concat (map (key_line (line_tail W)) DAYS)"
proof -
  have "encode_day day (dict_get W day (default_day day)) = key_line (line_tail W) day" for day
    by (simp add: encode_day_def key_line_def line_tail_def day_prefix_key)
  then show ?thesis by (simp add: file_text_def)
qed

lemma distinct_split_unique:
  "distinct (xs @ a # ys) \<Longrightarrow> xs @ a # ys = xs' @ a # ys' \<Longrightarrow> xs = xs'"
proof (induction xs arbitrary: xs')
  case Nil
  then show ?case by (cases xs') auto
next
  case (Cons x xs)
  show ?case
  proof (cases xs')
    case Nil
    with Cons.prems show ?thesis by auto
  next
    case (Cons x' list)
    with Cons.prems have "x = x'" and eq: "xs @ a # ys = list @ a # ys'"
      by simp_all
    moreover have "distinct (xs @ a # ys)" using Cons.prems(1) by simp
    ultimately have "xs = list" using Cons.IH by blast
    with \<open>x = x'\<close> Cons show ?thesis by simp
  qed
qed

lemma re_search_file:
  assumes date: "34 \<notin> set date" and d: "d \<in> set DAYS"
  shows "re_search_day d (file_text date W) = Some (combined_data (dict_get W d (default_day d)))"
proof -
  let ?line = "key_line (line_tail W)"
  define T where "T = file_text date W"
  obtain ds1 ds2 where split: "DAYS = ds1 @ d # ds2"
    using d by (auto dest: split_list)
  define pre where "pre = file_header date @ concat (map ?line ds1)"
  define post where "post = concat (map ?line ds2)"
  have Tl: "T = file_header date @ concat (map ?line DAYS)"
    by (simp add: T_def file_text_lines)
  have T: "T = pre @ (?line d @ post)"
    by (simp add: Tl pre_def post_def split)
  have tails: "\<forall>d\<in>set DAYS. eqq_free (line_tail W d)"
    by (simp add: line_tail_def eqq_free_tail)
  have no: "\<forall>k<length pre. \<not> starts_with (day_prefix d) (drop k (pre @ (?line d @ post)))"
  proof (intro allI impI notI)
    fix k assume k: "k < length pre"
      and sw: "starts_with (day_prefix d) (drop k (pre @ (?line d @ post)))"
    define r where "r = drop (length (day_prefix d)) (drop k T)"
    have "drop k T = day_prefix d @ r"
      unfolding r_def using sw starts_with_split unfolding T [symmetric] by blast
    then have "T = take k T @ day_prefix d @ r"
      by (metis append_take_drop_id)
    then have A: "T = (take k T @ day_key d) @ 61 # 34 # r"
      by (simp add: day_prefix_key)
    have "file_header date @ concat (map ?line DAYS) = (take k T @ day_key d) @ 61 # 34 # r"
      by (rule trans [OF Tl [symmetric] A])
    from eqq_splits [OF eqq_free_header [OF date] subset_refl tails this]
    obtain ds1' d' ds2' where s': "DAYS = ds1' @ d' # ds2'"
      and x: "take k T @ day_key d = file_header date @ concat (map ?line ds1') @ day_key d'"
      by blast
    have d': "d' \<in> set DAYS" using s' by (metis in_set_conv_decomp)
    have "take k T @ day_key d = (file_header date @ concat (map ?line ds1')) @ day_key d'"
      using x by simp
    from key_suffix_eq [OF d d' this]
    have dd: "d = d'" and u: "take k T = file_header date @ concat (map ?line ds1')"
      by simp_all
    have "distinct (ds1 @ d # ds2)" using distinct_DAYS split by simp
    moreover have "ds1 @ d # ds2 = ds1' @ d # ds2'" using split s' dd by simp
    ultimately have "ds1 = ds1'" by (rule distinct_split_unique)
    with u have "take k T = pre" by (simp add: pre_def)
    then have "length (take k T) = length pre" by simp
    moreover have "k < length T" using k T by simp
    ultimately show False using k by simp
  qed
  have "re_search_day d T = re_search_day d (?line d @ post)"
    unfolding T by (rule search_skip [OF no])
  also have "\<dots> = Some (combined_data (dict_get W d (default_day d)))"
  proof -
    obtain w where w: "combined_data (dict_get W d (default_day d)) = escape_shell w"
      using combined_data_escaped by blast
    have "?line d @ post = day_prefix d @ escape_shell w @ 34 # (10 # post)"
      by (simp add: key_line_def line_tail_def day_prefix_key w)
    then show ?thesis
      using match_day_at_line [of d w "10 # post"] by (simp add: search_here w)
  qed
  finally show ?thesis by (simp add: T_def)
qed

lemma valid_plans_id:
  "\<forall>p\<in>set ps. sanitize_input (name p) = name p \<and> sanitize_input (details p) = details p
      \<and> name p \<noteq> [] \<Longrightarrow> valid_plans ps = ps"
  by (induction ps) simp_all

lemma day_result_file:
  assumes date: "34 \<notin> set date" and d: "d \<in> set DAYS"
  shows "day_result str_of (file_text date W) d
         = decode_day str_of d (combined_data (dict_get W d (default_day d))) (default_day d)"
  by (simp add: day_result_def re_search_file [OF date d])

lemma decode_encode_day:
  assumes s: "day_sanitized dd" and v: "day_survives dd"
  shows "decode_day str_of day (combined_data dd) entry = dd"
proof -
  have st: "study_time dd = sanitize_input (study_time dd)"
    and g: "goals dd = sanitize_input (goals dd)"
    using s by (simp_all add: day_sanitized_def)
  have vp: "valid_plans (plans dd) = plans dd"
    using s by (intro valid_plans_id) (simp add: day_sanitized_def)
  have "decode_day str_of day (combined_data dd) entry
      = \<lparr>study_time = study_time dd, goals = goals dd, plans = valid_plans (plans dd)\<rparr>"
    using v by (intro decode_day_combined [OF st g]) (simp_all add: day_survives_def)
  then show ?thesis by (simp add: vp)
qed

text \<open>
  Claim C1 (round trip). \<open>save_schedule_data\<close> writes \<open>file_text date W\<close>, and
  \<open>load_schedule_data\<close> reads it back. The saved file decodes to exactly \<open>W\<close> for every
  week that has an entry for each of the seven days and whose texts are sanitized
  (\<open>day_sanitized\<close>: every text is its own \<open>sanitize_input\<close>, every plan has a name),
  provided each day also passes the loader's cleaning (\<open>day_survives\<close>): the study time is
  not empty and has no \<open>information\<close> in it, \<open>clean_text\<close> leaves study time and goals as
  they are, and neither has a pipe. The date of the header comes from \<open>strftime\<close> and has no
  double quote. The plans need no such condition: their names and details come back
  whatever characters they have. \<open>str_of\<close> is Python's \<open>str\<close> on the JSON values that
  are not strings; it is never reached here.
\<close>

theorem decode_encode_round_trip:
  assumes date: "34 \<notin> set date"
    and dom: "dom W = set DAYS"
    and days: "\<forall>d\<in>set DAYS. \<forall>dd. W d = Some dd \<longrightarrow> day_sanitized dd \<and> day_survives dd"
  shows "load_schedule_data str_of (Content (file_text date W)) = Inr W"
proof -
  have "load_content str_of (file_text date W) d = W d" for d
  proof (cases "d \<in> set DAYS")
    case True
    then obtain dd where dd: "W d = Some dd" using dom by auto
    with days True have s: "day_sanitized dd" and v: "day_survives dd" by auto
    have "day_result str_of (file_text date W) d = dd"
      unfolding day_result_file [OF date True]
      by (simp add: dict_get_def dd decode_encode_day [OF s v])
    with True dd show ?thesis by (simp add: load_content_apply)
  next
    case False
    then have "W d = None" using dom by auto
    with False show ?thesis by (simp add: load_content_apply)
  qed
  then have "load_content str_of (file_text date W) = W" by (rule ext)
  then show ?thesis by (simp add: load_schedule_data_Content)
qed

lemmas sanitize_eval = sanitize_input_eq code_removed_def

lemma default_day_ok: "d \<in> set DAYS \<Longrightarrow> day_sanitized (default_day d) \<and> day_survives (default_day d)"
  by (auto simp: DAYS_def default_day_def dict_get_def DEFAULT_STUDY_TIMES_def day_sanitized_def
      day_survives_def sanitize_eval clean_text_eval)

lemma wed_ok:
  "day_sanitized \<lparr>study_time = U ''9:00-10:30'', goals = U ''read '' @ [34] @ U ''x'' @ [34],
      plans = [\<lparr>name = U ''Work'', details = U ''9-5''\<rparr>]\<rparr>
   \<and> day_survives \<lparr>study_time = U ''9:00-10:30'', goals = U ''read '' @ [34] @ U ''x'' @ [34],
      plans = [\<lparr>name = U ''Work'', details = U ''9-5''\<rparr>]\<rparr>"
  by (simp add: day_sanitized_def day_survives_def sanitize_eval clean_text_eval)

text \<open>
  The round trip on a week of that kind: the default week with a study time, goals with
  double quotes and one plan on Wednesday.
\<close>

theorem decode_encode_round_trip_witness:
  "load_schedule_data (\<lambda>v. []) (Content (file_text (U ''2025-01-01'') week_ok)) = Inr week_ok"
proof -
  have date: "34 \<notin> set (U ''2025-01-01'')" by simp
  have dom: "dom week_ok = set DAYS"
    by (auto simp: week_ok_def initialize_default_schedule_apply DAYS_def dom_def)
  have days: "\<forall>d\<in>set DAYS. \<forall>dd. week_ok d = Some dd \<longrightarrow> day_sanitized dd \<and> day_survives dd"
    using default_day_ok wed_ok
    by (auto simp: week_ok_def initialize_default_schedule_apply)
  show ?thesis
    by (rule decode_encode_round_trip [OF date dom days])
qed

lemma week_no_study_sanitized:
  "list_all (\<lambda>d. case week_no_study d of Some dd \<Rightarrow> day_sanitized dd | None \<Rightarrow> False) DAYS"
proof -
  have e: "day_sanitized \<lparr>study_time = [], goals = [], plans = []\<rparr>"
    by (simp add: day_sanitized_def sanitize_input_def)
  have "\<forall>d\<in>set DAYS. case week_no_study d of Some dd \<Rightarrow> day_sanitized dd | None \<Rightarrow> False"
    using default_day_ok e
    by (auto simp: week_no_study_def initialize_default_schedule_apply)
  then show ?thesis
    by (simp only: list_all_iff)
qed

lemma decode_no_study:
  "decode_day (\<lambda>v. []) (U ''Monday'') (combined_data \<lparr>study_time = [], goals = [], plans = []\<rparr>)
     (default_day (U ''Monday''))
   = \<lparr>study_time = U ''11:00-3:00'', goals = [], plans = []\<rparr>"
  by (simp add: combined_data_def escape_shell_Nil sanitize_input_def json_dumps_plans_def
      escape_shell_concat esc_char_def decode_eval clean_text_eval json_eval)

text \<open>
  Claim C1 as stated, for every sanitized week, fails: a sanitized week whose Monday has the
  empty study time is saved as \<open>schedule[Monday]="|||PLANS||[]"\<close>, and loading that file
  gives Monday the default study time \<open>11:00-3:00\<close>, because the loader replaces an empty
  study time by the default of the day.
\<close>

theorem empty_study_time_not_restored:
  "list_all (\<lambda>d. case week_no_study d of Some dd \<Rightarrow> day_sanitized dd | None \<Rightarrow> False) DAYS
   \<and> week_no_study (U ''Monday'') = Some \<lparr>study_time = [], goals = [], plans = []\<rparr>
   \<and> (case load_schedule_data (\<lambda>v. []) (Content (file_text (U ''2025-01-01'') week_no_study)) of
         Inr w \<Rightarrow> w (U ''Monday'') | Inl e \<Rightarrow> None)
       = Some \<lparr>study_time = U ''11:00-3:00'', goals = [], plans = []\<rparr>"
proof -
  have date: "34 \<notin> set (U ''2025-01-01'')" by simp
  have d: "U ''Monday'' \<in> set DAYS" by (simp add: DAYS_def)
  have m: "week_no_study (U ''Monday'') = Some \<lparr>study_time = [], goals = [], plans = []\<rparr>"
    by (simp add: week_no_study_def)
  have "day_result (\<lambda>v. []) (file_text (U ''2025-01-01'') week_no_study) (U ''Monday'')
      = \<lparr>study_time = U ''11:00-3:00'', goals = [], plans = []\<rparr>"
    unfolding day_result_file [OF date d] using decode_no_study m
    by (simp add: dict_get_def)
  then show ?thesis
    using week_no_study_sanitized m d
    by (simp add: load_schedule_data_Content load_content_apply)
qed
















section \<open>Saving: the claims\<close>

text \<open>
  Claim C10 (the schedule in memory after a save). Whatever the file system does:
  when \<open>save_schedule_data\<close> returns \<^verbatim>\<open>True\<close>, \<^verbatim>\<open>self.schedule\<close> is the schedule that
  was to be saved, the file holds its whole text, and neither the creation of the
  directory, nor the test for the file, nor opening or writing the file raised; when it
  returns \<^verbatim>\<open>False\<close>, \<^verbatim>\<open>self.schedule\<close> is what it was before the call; and an exception
  in any of those four steps makes it return \<^verbatim>\<open>False\<close>. (An exception of the copy that
  makes the backup is caught on the spot and the save goes on, and so is an
  \<^verbatim>\<open>OSError\<close> of \<^verbatim>\<open>os.chmod\<close>.)
\<close>

theorem save_schedule_data_atomic:
  assumes "save_schedule_data date env arg m = (ok, m')"
  shows "(ok \<longrightarrow> schedule m' = (case arg of None \<Rightarrow> schedule m | Some w \<Rightarrow> w)
               \<and> answers_file m' = Content (file_text date (case arg of None \<Rightarrow> schedule m | Some w \<Rightarrow> w))
               \<and> mkdir_raises env = None \<and> exists_raises env = None
               \<and> open_raises env = None \<and> write_raises env = None)
       \<and> (\<not> ok \<longrightarrow> schedule m' = schedule m)
       \<and> (mkdir_raises env \<noteq> None \<or> exists_raises env \<noteq> None
            \<or> open_raises env \<noteq> None \<or> write_raises env \<noteq> None \<longrightarrow> \<not> ok)"
  using assms
  by (auto simp: save_schedule_data_def Let_def split: if_splits option.splits)

text \<open>
  Two calls: one whose write fails after 30 characters, which returns \<^verbatim>\<open>False\<close> and
  keeps the schedule of the manager; and one in which only the backup copy and
  \<^verbatim>\<open>os.chmod\<close> fail, which returns \<^verbatim>\<open>True\<close> and stores the saved schedule.
\<close>

theorem save_schedule_data_atomic_witness:
  "fst (save_schedule_data (U ''2025-01-01'')
          (env_ok\<lparr>write_raises := Some (30, OSError)\<rparr>) (Some week_ok)
          \<lparr>schedule = week_mixed, answers_file = Missing, backups = []\<rparr>) = False
   \<and> schedule (snd (save_schedule_data (U ''2025-01-01'')
          (env_ok\<lparr>write_raises := Some (30, OSError)\<rparr>) (Some week_ok)
          \<lparr>schedule = week_mixed, answers_file = Missing, backups = []\<rparr>)) = week_mixed
   \<and> fst (save_schedule_data (U ''2025-01-01'')
          (env_ok\<lparr>copy2_raises := Some PermissionError, chmod_raises := Some OSError\<rparr>) (Some week_ok)
          \<lparr>schedule = week_mixed, answers_file = Content [], backups = []\<rparr>) = True
   \<and> schedule (snd (save_schedule_data (U ''2025-01-01'')
          (env_ok\<lparr>copy2_raises := Some PermissionError, chmod_raises := Some OSError\<rparr>) (Some week_ok)
          \<lparr>schedule = week_mixed, answers_file = Content [], backups = []\<rparr>)) = week_ok"
proof -
  let ?m = "\<lparr>schedule = week_mixed, answers_file = Missing, backups = []\<rparr>"
  let ?e = "env_ok\<lparr>write_raises := Some (30, OSError)\<rparr>"
  let ?m2 = "\<lparr>schedule = week_mixed, answers_file = Content [], backups = []\<rparr>"
  let ?e2 = "env_ok\<lparr>copy2_raises := Some PermissionError, chmod_raises := Some OSError\<rparr>"
  let ?d = "U ''2025-01-01''"
  have a: "\<not> fst (save_schedule_data ?d ?e (Some week_ok) ?m)"
    by (simp add: save_schedule_data_def env_ok_def)
  have b: "fst (save_schedule_data ?d ?e2 (Some week_ok) ?m2)"
    by (simp add: save_schedule_data_def env_ok_def)
  note t1 = save_schedule_data_atomic [where date = ?d and env = ?e and arg = "Some week_ok"
      and m = ?m, OF prod.collapse [symmetric]]
  note t2 = save_schedule_data_atomic [where date = ?d and env = ?e2 and arg = "Some week_ok"
      and m = ?m2, OF prod.collapse [symmetric]]
  show ?thesis
    using a b t1 t2 by simp
qed


section \<open>The HTML message: the claims\<close>









subsection \<open>No script tag\<close>

















subsection \<open>The markup characters do not depend on the texts\<close>










subsection \<open>The escaped texts are in the markup\<close>






















end
